theory Spec2Isabelle
  imports Complex_Main "HOL-Library.Word"
begin

section \<open>Common types\<close>

text \<open>The ESP-IDF status codes the firmware tests or returns. Codes the firmware only
  passes through are \<open>ESP_ERR_OTHER n\<close>.\<close>

datatype esp_err_t =
    ESP_OK
  | ESP_FAIL
  | ESP_ERR_NO_MEM
  | ESP_ERR_INVALID_ARG
  | ESP_ERR_INVALID_STATE
  | ESP_ERR_NVS_NO_FREE_PAGES
  | ESP_ERR_NVS_NEW_VERSION_FOUND
  | ESP_ERR_OTHER nat

section \<open>adc\_manager.c\<close>

text \<open>Channels and attenuation levels are C enums; handles are pointers, with \<open>None\<close>
  for \<open>NULL\<close> and \<open>Some a\<close> for the object at address \<open>a\<close>.\<close>

type_synonym adc_channel_t = int
type_synonym adc_atten_t = int
type_synonym adc_cali_handle_t = "nat option"
type_synonym adc_oneshot_unit_handle_t = "nat option"

record cali_entry_t =
  channel :: adc_channel_t
  atten :: adc_atten_t
  handle :: adc_cali_handle_t
  in_use :: bool

definition MAX_CALI_HANDLES :: nat where
  "MAX_CALI_HANDLES = 4"

text \<open>\<open>static cali_entry_t cali_handles[MAX_CALI_HANDLES] = {0}\<close>: the table at boot.\<close>

definition cali_entry_zero :: cali_entry_t where
  "cali_entry_zero = \<lparr>channel = 0, atten = 0, handle = None, in_use = False\<rparr>"

definition cali_handles_init :: "cali_entry_t list" where
  "cali_handles_init = replicate MAX_CALI_HANDLES cali_entry_zero"

text \<open>The search loop of \<open>adc_manager_get_cali_handle\<close> over the slots in index order:
  the first slot in use with the same channel and attenuation decides.\<close>

fun adc_manager_get_cali_handle ::
  "cali_entry_t list \<Rightarrow> adc_channel_t \<Rightarrow> adc_atten_t \<Rightarrow> adc_cali_handle_t" where
  "adc_manager_get_cali_handle [] ch att = None"
| "adc_manager_get_cali_handle (e # es) ch att =
     (if in_use e \<and> channel e = ch \<and> atten e = att then handle e
      else adc_manager_get_cali_handle es ch att)"

text \<open>The loop that looks for a free slot: the index of the first slot not in use, counted
  from \<open>i\<close>, or \<open>-1\<close>.\<close>

fun find_free_slot :: "cali_entry_t list \<Rightarrow> nat \<Rightarrow> int" where
  "find_free_slot [] i = - 1"
| "find_free_slot (e # es) i = (if \<not> in_use e then int i else find_free_slot es (Suc i))"

text \<open>\<open>adc_manager_create_cali\<close> on the table \<open>tbl\<close>. The out-parameter \<open>cali_handle\<close> is
  \<open>None\<close> for a \<open>NULL\<close> pointer and \<open>Some c\<close> for a pointer to a cell holding \<open>c\<close>. The ESP-IDF
  call \<open>adc_cali_create_scheme_curve_fitting\<close> is not part of the repository: \<open>drv\<close> is what
  it returns and what \<open>*cali_handle\<close> holds when it has returned. The result is the return
  code, the table and the content of the out-parameter afterwards.\<close>

definition adc_manager_create_cali ::
  "cali_entry_t list \<Rightarrow> adc_channel_t \<Rightarrow> adc_atten_t \<Rightarrow> adc_cali_handle_t option \<Rightarrow>
   esp_err_t \<times> adc_cali_handle_t \<Rightarrow>
   esp_err_t \<times> cali_entry_t list \<times> adc_cali_handle_t option" where
  "adc_manager_create_cali tbl ch att cali_handle drv =
     (case cali_handle of
        None \<Rightarrow> (ESP_ERR_INVALID_ARG, tbl, None)
      | Some cell \<Rightarrow>
          (case adc_manager_get_cali_handle tbl ch att of
             Some existing \<Rightarrow> (ESP_OK, tbl, Some (Some existing))
           | None \<Rightarrow>
               (let free_slot = find_free_slot tbl 0 in
                if free_slot = - 1 then (ESP_ERR_NO_MEM, tbl, Some cell)
                else if fst drv \<noteq> ESP_OK then (fst drv, tbl, Some (snd drv))
                else (ESP_OK,
                      tbl[nat free_slot :=
                        \<lparr>channel = ch, atten = att, handle = snd drv, in_use = True\<rparr>],
                      Some (snd drv)))))"

text \<open>The contract of the ESP-IDF call: when it returns \<open>ESP_OK\<close> it has stored a handle
  that is not \<open>NULL\<close>.\<close>

definition curve_fitting_contract :: "esp_err_t \<times> adc_cali_handle_t \<Rightarrow> bool" where
  "curve_fitting_contract drv = (fst drv = ESP_OK \<longrightarrow> snd drv \<noteq> None)"

text \<open>One call of \<open>adc_manager_create_cali\<close> during a boot cycle, and the table after a
  sequence of such calls. Nothing else writes the table.\<close>

record create_cali_call =
  call_channel :: adc_channel_t
  call_atten :: adc_atten_t
  call_out :: "adc_cali_handle_t option"
  call_drv :: "esp_err_t \<times> adc_cali_handle_t"

fun boot_cycle :: "cali_entry_t list \<Rightarrow> create_cali_call list \<Rightarrow> cali_entry_t list" where
  "boot_cycle tbl [] = tbl"
| "boot_cycle tbl (c # cs) =
     boot_cycle
       (fst (snd (adc_manager_create_cali tbl (call_channel c) (call_atten c) (call_out c)
          (call_drv c)))) cs"

text \<open>At most one slot in use per (channel, attenuation) pair.\<close>

definition one_entry_per_pair :: "cali_entry_t list \<Rightarrow> bool" where
  "one_entry_per_pair tbl =
     (\<forall>i < length tbl. \<forall>j < length tbl.
        in_use (tbl ! i) \<and> in_use (tbl ! j) \<and> channel (tbl ! i) = channel (tbl ! j) \<and>
        atten (tbl ! i) = atten (tbl ! j) \<longrightarrow> i = j)"

text \<open>The invariant of the table: its size, uniqueness, and a handle in every slot in use.\<close>

definition cali_registry_inv :: "cali_entry_t list \<Rightarrow> bool" where
  "cali_registry_inv tbl =
     (length tbl = MAX_CALI_HANDLES \<and> one_entry_per_pair tbl \<and>
      (\<forall>e \<in> set tbl. in_use e \<longrightarrow> handle e \<noteq> None))"

text \<open>A boot cycle used as a concrete example: six requests, one for a pair that is
  already cached and one whose driver call fails, which fill the four slots.\<close>

definition registry_example_calls :: "create_cali_call list" where
  "registry_example_calls =
    [\<lparr>call_channel = 0, call_atten = 3, call_out = Some None, call_drv = (ESP_OK, Some 10)\<rparr>,
     \<lparr>call_channel = 1, call_atten = 3, call_out = Some None, call_drv = (ESP_OK, Some 11)\<rparr>,
     \<lparr>call_channel = 1, call_atten = 3, call_out = Some None, call_drv = (ESP_OK, Some 12)\<rparr>,
     \<lparr>call_channel = 2, call_atten = 3, call_out = Some None, call_drv = (ESP_FAIL, None)\<rparr>,
     \<lparr>call_channel = 2, call_atten = 0, call_out = Some None, call_drv = (ESP_OK, Some 13)\<rparr>,
     \<lparr>call_channel = 3, call_atten = 0, call_out = Some None, call_drv = (ESP_OK, Some 14)\<rparr>]"

text \<open>The module's other statics, \<open>adc_handle\<close> and \<open>initialized\<close>, with the table.\<close>

record adc_manager_state =
  adc_handle :: adc_oneshot_unit_handle_t
  adc_initialized :: bool
  cali_handles :: "cali_entry_t list"

definition adc_manager_state_init :: adc_manager_state where
  "adc_manager_state_init =
     \<lparr>adc_handle = None, adc_initialized = False, cali_handles = cali_handles_init\<rparr>"

text \<open>\<open>adc_manager_init\<close>; \<open>drv\<close> is what \<open>adc_oneshot_new_unit\<close> returns and what it leaves
  in \<open>adc_handle\<close>.\<close>

definition adc_manager_init ::
  "adc_manager_state \<Rightarrow> esp_err_t \<times> adc_oneshot_unit_handle_t \<Rightarrow>
   esp_err_t \<times> adc_manager_state" where
  "adc_manager_init a drv =
     (if adc_initialized a then (ESP_OK, a)
      else if fst drv \<noteq> ESP_OK then (fst drv, a\<lparr>adc_handle := snd drv\<rparr>)
      else (ESP_OK, a\<lparr>adc_handle := snd drv, adc_initialized := True\<rparr>))"

definition adc_manager_get_handle :: "adc_manager_state \<Rightarrow> adc_oneshot_unit_handle_t" where
  "adc_manager_get_handle a = adc_handle a"

section \<open>battery\_monitor.c and soil\_moisture.c\<close>

text \<open>C \<open>float\<close> values are modelled as real numbers (\<open>c_float\<close>): the rounding of
  single-precision arithmetic is left out. \<open>(int) x\<close> truncates towards zero. \<open>uint32_t\<close> arithmetic is
  arithmetic modulo \<open>2 ^ 32\<close>, and storing an unsigned value in an \<open>int\<close> keeps its bits.\<close>

type_synonym c_float = real

definition c_int_of_float :: "c_float \<Rightarrow> int" where
  "c_int_of_float x = (if 0 \<le> x then \<lfloor>x\<rfloor> else \<lceil>x\<rceil>)"

definition uint32 :: "int \<Rightarrow> int" where
  "uint32 x = x mod 2 ^ 32"

definition int32 :: "int \<Rightarrow> int" where
  "int32 x = (if x mod 2 ^ 32 < 2 ^ 31 then x mod 2 ^ 32 else x mod 2 ^ 32 - 2 ^ 32)"

definition ADC_CHANNEL_0 :: adc_channel_t where "ADC_CHANNEL_0 = 0"
definition ADC_CHANNEL_1 :: adc_channel_t where "ADC_CHANNEL_1 = 1"
definition ADC_ATTEN_DB_12 :: adc_atten_t where "ADC_ATTEN_DB_12 = 3"

definition BAT_ADC_CHAN :: adc_channel_t where "BAT_ADC_CHAN = ADC_CHANNEL_0"
definition SOIL_ADC_CHAN :: adc_channel_t where "SOIL_ADC_CHAN = ADC_CHANNEL_1"
definition ADC_ATTEN :: adc_atten_t where "ADC_ATTEN = ADC_ATTEN_DB_12"
definition VOLTAGE_DIVIDER :: c_float where "VOLTAGE_DIVIDER = 2"
definition SAMPLE_COUNT :: nat where "SAMPLE_COUNT = 10"
definition SENSOR_DRY_MV :: int where "SENSOR_DRY_MV = 2950"
definition SENSOR_WET_MV :: int where "SENSOR_WET_MV = 851"

text \<open>One call of \<open>adc_oneshot_read\<close>: its return code and the value it stored in
  \<open>raw_value\<close>. The sampling loop, the same in both modules, runs over the results of its
  calls in order and carries \<open>value_sum\<close> (a \<open>uint32_t\<close>) and \<open>valid_samples\<close>.\<close>

type_synonym adc_read = "esp_err_t \<times> int"

fun sample_loop :: "adc_read list \<Rightarrow> int \<times> int \<Rightarrow> int \<times> int" where
  "sample_loop [] (value_sum, valid_samples) = (value_sum, valid_samples)"
| "sample_loop ((err, raw_value) # rs) (value_sum, valid_samples) =
     (if err = ESP_OK then sample_loop rs (uint32 (value_sum + raw_value), valid_samples + 1)
      else sample_loop rs (value_sum, valid_samples))"

text \<open>The statics \<open>cali_handle\<close> and \<open>initialized\<close> of the two modules.\<close>

record battery_state =
  bat_cali_handle :: adc_cali_handle_t
  bat_initialized :: bool

record soil_state =
  soil_cali_handle :: adc_cali_handle_t
  soil_initialized :: bool

definition battery_state_init :: battery_state where
  "battery_state_init = \<lparr>bat_cali_handle = None, bat_initialized = False\<rparr>"

definition soil_state_init :: soil_state where
  "soil_state_init = \<lparr>soil_cali_handle = None, soil_initialized = False\<rparr>"

text \<open>\<open>battery_monitor_init\<close> and \<open>soil_moisture_init\<close>. \<open>cfg\<close> is the return code of
  \<open>adc_oneshot_config_channel\<close> and \<open>drv\<close> the outcome of the driver call inside
  \<open>adc_manager_create_cali\<close>. The result is the return code and the statics afterwards.\<close>

definition battery_monitor_init ::
  "battery_state \<Rightarrow> adc_manager_state \<Rightarrow> esp_err_t \<Rightarrow> esp_err_t \<times> adc_cali_handle_t \<Rightarrow>
   esp_err_t \<times> battery_state \<times> adc_manager_state" where
  "battery_monitor_init b a cfg drv =
     (if bat_initialized b then (ESP_OK, b, a)
      else if adc_manager_get_handle a = None then (ESP_ERR_INVALID_STATE, b, a)
      else if cfg \<noteq> ESP_OK then (cfg, b, a)
      else
        (case adc_manager_create_cali (cali_handles a) BAT_ADC_CHAN ADC_ATTEN
                (Some (bat_cali_handle b)) drv of
           (err, tbl, out) \<Rightarrow>
             (let b' = b\<lparr>bat_cali_handle := (case out of Some c \<Rightarrow> c | None \<Rightarrow> bat_cali_handle b)\<rparr>;
                  a' = a\<lparr>cali_handles := tbl\<rparr>
              in if err \<noteq> ESP_OK then (err, b', a')
                 else (ESP_OK, b'\<lparr>bat_initialized := True\<rparr>, a'))))"

definition soil_moisture_init ::
  "soil_state \<Rightarrow> adc_manager_state \<Rightarrow> esp_err_t \<Rightarrow> esp_err_t \<times> adc_cali_handle_t \<Rightarrow>
   esp_err_t \<times> soil_state \<times> adc_manager_state" where
  "soil_moisture_init s a cfg drv =
     (if soil_initialized s then (ESP_OK, s, a)
      else if adc_manager_get_handle a = None then (ESP_ERR_INVALID_STATE, s, a)
      else if cfg \<noteq> ESP_OK then (cfg, s, a)
      else
        (case adc_manager_create_cali (cali_handles a) SOIL_ADC_CHAN ADC_ATTEN
                (Some (soil_cali_handle s)) drv of
           (err, tbl, out) \<Rightarrow>
             (let s' = s\<lparr>soil_cali_handle := (case out of Some c \<Rightarrow> c | None \<Rightarrow> soil_cali_handle s)\<rparr>;
                  a' = a\<lparr>cali_handles := tbl\<rparr>
              in if err \<noteq> ESP_OK then (err, s', a')
                 else (ESP_OK, s'\<lparr>soil_initialized := True\<rparr>, a'))))"

text \<open>The two voltage reads. \<open>reads i\<close> is the outcome of the \<open>i\<close>-th call of
  \<open>adc_oneshot_read\<close>, and \<open>raw_to_voltage h raw\<close> the outcome of
  \<open>adc_cali_raw_to_voltage\<close>: its return code and the millivolts it stored. The division
  \<open>value_sum / valid_samples\<close> is unsigned, its result is stored in the \<open>int\<close> \<open>avg_raw\<close>.\<close>

definition battery_monitor_read_voltage ::
  "battery_state \<Rightarrow> adc_manager_state \<Rightarrow> (nat \<Rightarrow> adc_read) \<Rightarrow>
   (adc_cali_handle_t \<Rightarrow> int \<Rightarrow> esp_err_t \<times> int) \<Rightarrow> c_float" where
  "battery_monitor_read_voltage b a reads raw_to_voltage =
     (if \<not> bat_initialized b then 0
      else if adc_manager_get_handle a = None then 0
      else
        (case sample_loop (map reads [0..<SAMPLE_COUNT]) (0, 0) of
           (value_sum, valid_samples) \<Rightarrow>
             if valid_samples = 0 then 0
             else
               (let avg_raw = int32 (value_sum div uint32 valid_samples) in
                case raw_to_voltage (bat_cali_handle b) avg_raw of
                  (err, voltage_mV) \<Rightarrow>
                    if err \<noteq> ESP_OK then 0
                    else real_of_int voltage_mV * VOLTAGE_DIVIDER / 1000)))"

definition soil_moisture_read_voltage ::
  "soil_state \<Rightarrow> adc_manager_state \<Rightarrow> (nat \<Rightarrow> adc_read) \<Rightarrow>
   (adc_cali_handle_t \<Rightarrow> int \<Rightarrow> esp_err_t \<times> int) \<Rightarrow> c_float" where
  "soil_moisture_read_voltage s a reads raw_to_voltage =
     (if \<not> soil_initialized s then 0
      else if adc_manager_get_handle a = None then 0
      else
        (case sample_loop (map reads [0..<SAMPLE_COUNT]) (0, 0) of
           (value_sum, valid_samples) \<Rightarrow>
             if valid_samples = 0 then 0
             else
               (let avg_raw = int32 (value_sum div uint32 valid_samples) in
                case raw_to_voltage (soil_cali_handle s) avg_raw of
                  (err, voltage_mV) \<Rightarrow>
                    if err \<noteq> ESP_OK then 0
                    else real_of_int voltage_mV / 1000)))"

text \<open>The conversion in \<open>soil_moisture_read_percentage\<close>, from the \<open>if\<close> on \<open>voltage_mV\<close>
  to the two clamping statements, as a function of the local \<open>voltage_mV\<close>.\<close>

definition moisture_of_mV :: "int \<Rightarrow> c_float" where
  "moisture_of_mV voltage_mV =
     (let percentage =
        (if voltage_mV \<ge> SENSOR_DRY_MV then 0
         else if voltage_mV \<le> SENSOR_WET_MV then 100
         else 100 * real_of_int (SENSOR_DRY_MV - voltage_mV) /
              real_of_int (SENSOR_DRY_MV - SENSOR_WET_MV));
          percentage = (if percentage < 0 then 0 else percentage);
          percentage = (if percentage > 100 then 100 else percentage)
      in percentage)"

definition soil_moisture_read_percentage ::
  "soil_state \<Rightarrow> adc_manager_state \<Rightarrow> (nat \<Rightarrow> adc_read) \<Rightarrow>
   (adc_cali_handle_t \<Rightarrow> int \<Rightarrow> esp_err_t \<times> int) \<Rightarrow> c_float" where
  "soil_moisture_read_percentage s a reads raw_to_voltage =
     (if \<not> soil_initialized s then 0
      else
        (let voltage = soil_moisture_read_voltage s a reads raw_to_voltage;
             voltage_mV = c_int_of_float (voltage * 1000)
         in moisture_of_mV voltage_mV))"

text \<open>The samples of one read call that were read without error, in order.\<close>

definition valid_raw_samples :: "(nat \<Rightarrow> adc_read) \<Rightarrow> int list" where
  "valid_raw_samples reads = map snd (filter (\<lambda>r. fst r = ESP_OK) (map reads [0..<SAMPLE_COUNT]))"

text \<open>A concrete read call used as an example: ten samples of which the third and the
  eighth fail, a driver that subtracts an offset, and both modules initialised.\<close>

definition example_reads :: "nat \<Rightarrow> adc_read" where
  "example_reads i = (if i = 2 \<or> i = 7 then (ESP_FAIL, 0) else (ESP_OK, 2000 + int i))"

definition example_raw_to_voltage :: "adc_cali_handle_t \<Rightarrow> int \<Rightarrow> esp_err_t \<times> int" where
  "example_raw_to_voltage h raw = (ESP_OK, raw - 154)"

definition example_adc :: adc_manager_state where
  "example_adc = \<lparr>adc_handle = Some 1, adc_initialized = True, cali_handles = cali_handles_init\<rparr>"

definition example_battery :: battery_state where
  "example_battery = \<lparr>bat_cali_handle = Some 10, bat_initialized = True\<rparr>"

definition example_soil :: soil_state where
  "example_soil = \<lparr>soil_cali_handle = Some 11, soil_initialized = True\<rparr>"

text \<open>Two more read calls: one where every sample is read as 0 and the driver maps a raw
  value to the same number of millivolts (a pin at ground), and one where every read
  fails.\<close>

definition zero_reads :: "nat \<Rightarrow> adc_read" where
  "zero_reads i = (ESP_OK, 0)"

definition failed_reads :: "nat \<Rightarrow> adc_read" where
  "failed_reads i = (ESP_FAIL, 0)"

definition identity_raw_to_voltage :: "adc_cali_handle_t \<Rightarrow> int \<Rightarrow> esp_err_t \<times> int" where
  "identity_raw_to_voltage h raw = (ESP_OK, raw)"

section \<open>mqtt\_publisher.c\<close>

datatype esp_mqtt_event_id_t =
    MQTT_EVENT_CONNECTED
  | MQTT_EVENT_DISCONNECTED
  | MQTT_EVENT_ERROR
  | MQTT_EVENT_OTHER nat

text \<open>The module's static flag \<open>mqtt_connected\<close>, initially \<open>false\<close>.\<close>

record mqtt_state =
  mqtt_connected :: bool

definition mqtt_state_init :: mqtt_state where
  "mqtt_state_init = \<lparr>mqtt_connected = False\<rparr>"

text \<open>The bodies of the \<open>switch\<close> in \<open>mqtt_event_handler\<close>, one per \<open>case\<close> label. The
  body under \<open>MQTT_EVENT_CONNECTED\<close> has no \<open>break\<close> (it is commented out), so control
  runs on into the body under \<open>MQTT_EVENT_DISCONNECTED\<close>, which ends with \<open>break\<close>.\<close>

definition case_MQTT_EVENT_DISCONNECTED :: "mqtt_state \<Rightarrow> mqtt_state" where
  "case_MQTT_EVENT_DISCONNECTED s = s\<lparr>mqtt_connected := False\<rparr>"

definition case_MQTT_EVENT_CONNECTED :: "mqtt_state \<Rightarrow> mqtt_state" where
  "case_MQTT_EVENT_CONNECTED s = case_MQTT_EVENT_DISCONNECTED (s\<lparr>mqtt_connected := True\<rparr>)"

fun mqtt_event_handler :: "esp_mqtt_event_id_t \<Rightarrow> mqtt_state \<Rightarrow> mqtt_state" where
  "mqtt_event_handler MQTT_EVENT_CONNECTED s = case_MQTT_EVENT_CONNECTED s"
| "mqtt_event_handler MQTT_EVENT_DISCONNECTED s = case_MQTT_EVENT_DISCONNECTED s"
| "mqtt_event_handler MQTT_EVENT_ERROR s = s"
| "mqtt_event_handler (MQTT_EVENT_OTHER n) s = s"

definition mqtt_publisher_is_connected :: "mqtt_state \<Rightarrow> bool" where
  "mqtt_publisher_is_connected s = mqtt_connected s"

section \<open>factory\_reset.c\<close>

definition LONG_PRESS_DURATION_MS :: "32 word" where "LONG_PRESS_DURATION_MS = 5000"
definition DEBOUNCE_TIME_MS :: "32 word" where "DEBOUNCE_TIME_MS = 50"
definition BUTTON_PRESSED :: int where "BUTTON_PRESSED = 0"

text \<open>What the reset does to the outside: the calls of \<open>wifi_credentials_clear\<close> and
  \<open>esp_restart\<close>, recorded in the order they are made.\<close>

datatype reset_action = WIFI_CREDENTIALS_CLEAR | ESP_RESTART

text \<open>The statics of the file (\<open>last_change_time\<close> and \<open>last_stable_state\<close> are the
  function-local statics of \<open>is_button_pressed\<close>) and the actions performed so far.\<close>

record button_state =
  button_press_start_ms :: "32 word"
  button_was_pressed :: bool
  reset_triggered :: bool
  last_change_time :: "32 word"
  last_stable_state :: bool
  actions :: "reset_action list"

definition button_state_init :: button_state where
  "button_state_init =
     \<lparr>button_press_start_ms = 0, button_was_pressed = False, reset_triggered = False,
      last_change_time = 0, last_stable_state = False, actions = []\<rparr>"

text \<open>\<open>get_time_ms\<close>, from the microseconds \<open>esp_timer_get_time\<close> returns (never negative),
  cast to \<open>uint32_t\<close>.\<close>

definition get_time_ms :: "int \<Rightarrow> 32 word" where
  "get_time_ms us = word_of_int (us div 1000)"

text \<open>\<open>is_button_pressed\<close>, given the GPIO level and the timer value it reads. The
  subtraction and the comparison are unsigned 32-bit.\<close>

definition is_button_pressed :: "button_state \<Rightarrow> int \<Rightarrow> int \<Rightarrow> bool \<times> button_state" where
  "is_button_pressed s level us =
     (let current_state = (level = BUTTON_PRESSED);
          now = get_time_ms us
      in if current_state \<noteq> last_stable_state s then
           (if now - last_change_time s \<ge> DEBOUNCE_TIME_MS
            then (current_state, s\<lparr>last_stable_state := current_state, last_change_time := now\<rparr>)
            else (last_stable_state s, s))
         else (last_stable_state s, s))"

text \<open>One call of \<open>factory_reset_check\<close> reads the GPIO level once and the timer twice, in
  \<open>is_button_pressed\<close> and after it.\<close>

record poll =
  gpio_level :: int
  timer_us_debounce :: int
  timer_us_check :: int

definition factory_reset_check :: "button_state \<Rightarrow> poll \<Rightarrow> button_state" where
  "factory_reset_check s p =
     (if reset_triggered s then s
      else
        (case is_button_pressed s (gpio_level p) (timer_us_debounce p) of
           (currently_pressed, s1) \<Rightarrow>
             (let now = get_time_ms (timer_us_check p) in
              if currently_pressed \<and> \<not> button_was_pressed s1 then
                s1\<lparr>button_press_start_ms := now, button_was_pressed := True\<rparr>
              else if currently_pressed \<and> button_was_pressed s1 then
                (let press_duration = now - button_press_start_ms s1 in
                 if press_duration \<ge> LONG_PRESS_DURATION_MS then
                   s1\<lparr>reset_triggered := True,
                      actions := actions s1 @ [WIFI_CREDENTIALS_CLEAR, ESP_RESTART]\<rparr>
                 else s1)
              else if \<not> currently_pressed \<and> button_was_pressed s1 then
                s1\<lparr>button_was_pressed := False\<rparr>
              else s1)))"

text \<open>The calls of \<open>factory_reset_check\<close> of one boot cycle, in order.\<close>

fun factory_reset_checks :: "button_state \<Rightarrow> poll list \<Rightarrow> button_state" where
  "factory_reset_checks s [] = s"
| "factory_reset_checks s (p # ps) = factory_reset_checks (factory_reset_check s p) ps"

text \<open>Polls of \<open>is_button_pressed\<close> alone: the debounced levels it returns, in order.\<close>

fun debounced_levels :: "button_state \<Rightarrow> (int \<times> int) list \<Rightarrow> bool list" where
  "debounced_levels s [] = []"
| "debounced_levels s ((level, us) # ps) =
     fst (is_button_pressed s level us) # debounced_levels (snd (is_button_pressed s level us)) ps"

text \<open>The invariant behind the latch: the reset actions have been performed once if
  \<open>reset_triggered\<close> is set and not at all otherwise.\<close>

definition actions_inv :: "button_state \<Rightarrow> bool" where
  "actions_inv s =
     (actions s = (if reset_triggered s then [WIFI_CREDENTIALS_CLEAR, ESP_RESTART] else []))"

text \<open>The button at rest: the latch is not set, the last call saw the button released and
  so does the debounce filter.\<close>

definition button_idle :: "button_state \<Rightarrow> bool" where
  "button_idle s = (\<not> reset_triggered s \<and> \<not> button_was_pressed s \<and> \<not> last_stable_state s)"

text \<open>Concrete polls used as examples: the state after a press is accepted at 100 ms; a
  press accepted at 0.1 s and held beyond 5.1 s; a press held for two seconds, its release
  at 4.1 s, and a second press at 4.2 s held to 6.0 s and on to 9.3 s; and a press at 100 ms
  whose release is read at 110 ms, followed by a press read at 5.2 s (as one list, and the
  last two polls on their own).\<close>

definition press_100ms :: button_state where
  "press_100ms = button_state_init\<lparr>last_stable_state := True, last_change_time := 100\<rparr>"

definition first_press_poll :: poll where
  "first_press_poll = \<lparr>gpio_level = 0, timer_us_debounce = 100000, timer_us_check = 100010\<rparr>"

definition held_polls :: "poll list" where
  "held_polls =
     [\<lparr>gpio_level = 0, timer_us_debounce = 2100000, timer_us_check = 2100010\<rparr>,
      \<lparr>gpio_level = 0, timer_us_debounce = 5100000, timer_us_check = 5100010\<rparr>,
      \<lparr>gpio_level = 0, timer_us_debounce = 5200000, timer_us_check = 5200010\<rparr>,
      \<lparr>gpio_level = 0, timer_us_debounce = 12000000, timer_us_check = 12000010\<rparr>]"

definition briefly_held_polls :: "poll list" where
  "briefly_held_polls =
     [\<lparr>gpio_level = 0, timer_us_debounce = 2100000, timer_us_check = 2100010\<rparr>]"

definition release_poll :: poll where
  "release_poll = \<lparr>gpio_level = 1, timer_us_debounce = 4100000, timer_us_check = 4100010\<rparr>"

definition second_press_poll :: poll where
  "second_press_poll = \<lparr>gpio_level = 0, timer_us_debounce = 4200000, timer_us_check = 4200010\<rparr>"

definition held_to_6s :: "poll list" where
  "held_to_6s = [\<lparr>gpio_level = 0, timer_us_debounce = 6000000, timer_us_check = 6000010\<rparr>]"

definition held_to_9s :: "poll list" where
  "held_to_9s =
     [\<lparr>gpio_level = 0, timer_us_debounce = 6000000, timer_us_check = 6000010\<rparr>,
      \<lparr>gpio_level = 0, timer_us_debounce = 9300000, timer_us_check = 9300010\<rparr>]"

definition dropped_release_polls :: "poll list" where
  "dropped_release_polls =
     [\<lparr>gpio_level = 0, timer_us_debounce = 100000, timer_us_check = 100010\<rparr>,
      \<lparr>gpio_level = 1, timer_us_debounce = 110000, timer_us_check = 110010\<rparr>,
      \<lparr>gpio_level = 0, timer_us_debounce = 5200000, timer_us_check = 5200010\<rparr>]"

definition early_release_poll :: poll where
  "early_release_poll = \<lparr>gpio_level = 1, timer_us_debounce = 110000, timer_us_check = 110010\<rparr>"

definition late_press_polls :: "poll list" where
  "late_press_polls = [\<lparr>gpio_level = 0, timer_us_debounce = 5200000, timer_us_check = 5200010\<rparr>]"

section \<open>wifi\_credentials.c\<close>

text \<open>The NVS namespace \<open>wifi_config\<close>: a store from keys to strings or bytes. NVS itself is
  ESP-IDF code; what is assumed of it is that a \<open>set\<close> call that returns \<open>ESP_OK\<close> has
  stored the value under the key, that one that returns an error has stored nothing, that
  \<open>nvs_erase_all\<close> removes every key when it returns \<open>ESP_OK\<close>, and that \<open>nvs_commit\<close> and
  \<open>nvs_close\<close> change no value. The return codes of the calls are inputs.\<close>

datatype nvs_value = Str string | U8 nat

type_synonym nvs = "string \<rightharpoonup> nvs_value"

definition NVS_KEY_SSID :: string where "NVS_KEY_SSID = ''ssid''"
definition NVS_KEY_PASSWORD :: string where "NVS_KEY_PASSWORD = ''password''"
definition NVS_KEY_PROVISIONED :: string where "NVS_KEY_PROVISIONED = ''provisioned''"
definition NVS_KEY_DEVICE_ID :: string where "NVS_KEY_DEVICE_ID = ''device_id''"

definition nvs_set :: "nvs \<Rightarrow> string \<Rightarrow> nvs_value \<Rightarrow> esp_err_t \<Rightarrow> nvs" where
  "nvs_set st key v rc = (if rc = ESP_OK then st(key \<mapsto> v) else st)"

text \<open>\<open>wifi_credentials_is_provisioned\<close>: \<open>open_rc\<close> is the return code of \<open>nvs_open\<close>;
  \<open>nvs_get_u8\<close> succeeds when the key holds a byte.\<close>

definition wifi_credentials_is_provisioned :: "nvs \<Rightarrow> esp_err_t \<Rightarrow> bool" where
  "wifi_credentials_is_provisioned st open_rc =
     (if open_rc \<noteq> ESP_OK then False
      else (case st NVS_KEY_PROVISIONED of Some (U8 prov_flag) \<Rightarrow> prov_flag = 1 | _ \<Rightarrow> False))"

text \<open>The return codes of the NVS calls of \<open>wifi_credentials_save\<close>, in the order of the
  calls.\<close>

record save_rcs =
  open_rc :: esp_err_t
  set_ssid_rc :: esp_err_t
  set_password_rc :: esp_err_t
  set_provisioned_rc :: esp_err_t
  commit_rc :: esp_err_t

definition wifi_credentials_save ::
  "nvs \<Rightarrow> string \<Rightarrow> string \<Rightarrow> save_rcs \<Rightarrow> esp_err_t \<times> nvs" where
  "wifi_credentials_save st ssid password rcs =
     (if open_rc rcs \<noteq> ESP_OK then (open_rc rcs, st)
      else
        (let st1 = nvs_set st NVS_KEY_SSID (Str ssid) (set_ssid_rc rcs) in
         if set_ssid_rc rcs \<noteq> ESP_OK then (set_ssid_rc rcs, st1)
         else
           (let st2 = nvs_set st1 NVS_KEY_PASSWORD (Str password) (set_password_rc rcs) in
            if set_password_rc rcs \<noteq> ESP_OK then (set_password_rc rcs, st2)
            else
              (let st3 = nvs_set st2 NVS_KEY_PROVISIONED (U8 1) (set_provisioned_rc rcs) in
               if set_provisioned_rc rcs \<noteq> ESP_OK then (set_provisioned_rc rcs, st3)
               else (commit_rc rcs, st3)))))"

record device_id_rcs =
  id_open_rc :: esp_err_t
  set_device_id_rc :: esp_err_t
  id_commit_rc :: esp_err_t

definition wifi_credentials_save_device_id ::
  "nvs \<Rightarrow> string \<Rightarrow> device_id_rcs \<Rightarrow> esp_err_t \<times> nvs" where
  "wifi_credentials_save_device_id st device_id rcs =
     (if id_open_rc rcs \<noteq> ESP_OK then (id_open_rc rcs, st)
      else
        (let st1 = nvs_set st NVS_KEY_DEVICE_ID (Str device_id) (set_device_id_rc rcs) in
         if set_device_id_rc rcs \<noteq> ESP_OK then (set_device_id_rc rcs, st1)
         else (id_commit_rc rcs, st1)))"

record clear_rcs =
  clear_open_rc :: esp_err_t
  erase_all_rc :: esp_err_t
  clear_commit_rc :: esp_err_t

definition wifi_credentials_clear :: "nvs \<Rightarrow> clear_rcs \<Rightarrow> esp_err_t \<times> nvs" where
  "wifi_credentials_clear st rcs =
     (if clear_open_rc rcs \<noteq> ESP_OK then (clear_open_rc rcs, st)
      else if erase_all_rc rcs = ESP_OK then (clear_commit_rc rcs, Map.empty)
      else (erase_all_rc rcs, st))"

section \<open>wifi\_provisioning.c\<close>

text \<open>C strings are character lists without the terminating NUL. \<open>strstr\<close> returns the rest
  of the string from the first occurrence of the needle on, or \<open>None\<close> for \<open>NULL\<close>.\<close>

definition c_string :: "string \<Rightarrow> string" where
  "c_string bytes = takeWhile (\<lambda>c. c \<noteq> CHR 0x00) bytes"

fun strstr :: "string \<Rightarrow> string \<Rightarrow> string option" where
  "strstr [] needle = (if needle = [] then Some [] else None)"
| "strstr (c # cs) needle =
     (if take (length needle) (c # cs) = needle then Some (c # cs) else strstr cs needle)"

definition url_decode :: "string \<Rightarrow> string" where
  "url_decode str = map (\<lambda>c. if c = CHR ''+'' then CHR '' '' else c) str"

text \<open>\<open>copy_form_field\<close>: the value copied into \<open>dst\<close>, or \<open>None\<close> for \<open>false\<close>.\<close>

definition copy_form_field :: "string \<Rightarrow> nat \<Rightarrow> nat \<Rightarrow> string option" where
  "copy_form_field start key_len dst_len =
     (let start = drop key_len start;
          len = length (takeWhile (\<lambda>c. c \<noteq> CHR ''&'') start)
      in if len \<ge> dst_len then None else Some (take len start))"

text \<open>\<open>parse_form_fields\<close>: the three decoded fields, or \<open>None\<close> for \<open>false\<close>.\<close>

definition parse_form_fields ::
  "string \<Rightarrow> nat \<Rightarrow> nat \<Rightarrow> nat \<Rightarrow> (string \<times> string \<times> string) option" where
  "parse_form_fields buf ssid_len pass_len device_id_len =
     (case (strstr buf ''ssid='', strstr buf ''password='', strstr buf ''device_id='') of
        (Some ssid_start, Some pass_start, Some device_id_start) \<Rightarrow>
          (case copy_form_field ssid_start 5 ssid_len of
             None \<Rightarrow> None
           | Some ssid \<Rightarrow>
               (case copy_form_field pass_start 9 pass_len of
                  None \<Rightarrow> None
                | Some password \<Rightarrow>
                    (case copy_form_field device_id_start 10 device_id_len of
                       None \<Rightarrow> None
                     | Some device_id \<Rightarrow>
                         Some (url_decode ssid, url_decode password, url_decode device_id))))
      | _ \<Rightarrow> None)"

text \<open>A request to \<open>/save\<close>: its \<open>content_len\<close> and the bytes received for the body, \<open>None\<close>
  when \<open>malloc\<close> or a \<open>httpd_req_recv\<close> fails. The result of \<open>save_post_handler\<close> is its
  return code and the store as it leaves it; after a successful save the firmware answers
  and restarts, which is the \<open>ESP_OK\<close> here.\<close>

record httpd_req_t =
  content_len :: int
  received :: "string option"

definition save_post_handler ::
  "nvs \<Rightarrow> httpd_req_t \<Rightarrow> save_rcs \<Rightarrow> device_id_rcs \<Rightarrow> esp_err_t \<times> nvs" where
  "save_post_handler st req rcs id_rcs =
     (if content_len req \<le> 0 then (ESP_FAIL, st)
      else
        (case received req of
           None \<Rightarrow> (ESP_FAIL, st)
         | Some bytes \<Rightarrow>
             (case parse_form_fields (c_string (take (nat (content_len req)) bytes)) 33 65 33 of
                None \<Rightarrow> (ESP_FAIL, st)
              | Some (ssid, password, device_id) \<Rightarrow>
                  (case wifi_credentials_save st ssid password rcs of
                     (err, st1) \<Rightarrow>
                       if err \<noteq> ESP_OK then (ESP_FAIL, st1)
                       else
                         (case wifi_credentials_save_device_id st1 device_id id_rcs of
                            (err2, st2) \<Rightarrow>
                              if err2 \<noteq> ESP_OK then (ESP_FAIL, st2) else (ESP_OK, st2))))))"

text \<open>The invariant of the stored identity as the specification words it, and the part of
  it that asks for presence only.\<close>

definition identity_inv :: "nvs \<Rightarrow> bool" where
  "identity_inv st =
     (st NVS_KEY_PROVISIONED = Some (U8 1) \<longrightarrow>
        (\<exists>ssid. st NVS_KEY_SSID = Some (Str ssid) \<and> ssid \<noteq> []) \<and>
        (\<exists>password. st NVS_KEY_PASSWORD = Some (Str password) \<and> password \<noteq> []))"

definition identity_present :: "nvs \<Rightarrow> bool" where
  "identity_present st =
     (st NVS_KEY_PROVISIONED = Some (U8 1) \<longrightarrow>
        (\<exists>ssid. st NVS_KEY_SSID = Some (Str ssid)) \<and>
        (\<exists>password. st NVS_KEY_PASSWORD = Some (Str password)))"

text \<open>Examples: every NVS call succeeding, and a form with empty fields.\<close>

definition save_ok :: save_rcs where
  "save_ok = \<lparr>open_rc = ESP_OK, set_ssid_rc = ESP_OK, set_password_rc = ESP_OK,
     set_provisioned_rc = ESP_OK, commit_rc = ESP_OK\<rparr>"

definition device_id_ok :: device_id_rcs where
  "device_id_ok = \<lparr>id_open_rc = ESP_OK, set_device_id_rc = ESP_OK, id_commit_rc = ESP_OK\<rparr>"

definition empty_fields_req :: httpd_req_t where
  "empty_fields_req = \<lparr>content_len = 27, received = Some ''ssid=&password=&device_id=x''\<rparr>"

section \<open>main.c\<close>

text \<open>A call that may not come back: it returns a value, or the firmware aborts
  (\<open>ESP_ERROR_CHECK\<close>) or restarts inside it.\<close>

datatype 'a outcome = Returned 'a | Aborted | Restarted

text \<open>The statics of the modules \<open>init_system\<close> initialises, and their values at boot.\<close>

record system_state =
  adc :: adc_manager_state
  battery :: battery_state
  soil :: soil_state

definition system_state_init :: system_state where
  "system_state_init =
     \<lparr>adc = adc_manager_state_init, battery = battery_state_init, soil = soil_state_init\<rparr>"

text \<open>What the ESP-IDF calls made during \<open>init_system\<close> return, in the order of the calls:
  \<open>nvs_flash_init\<close>, \<open>nvs_flash_erase\<close> and the second \<open>nvs_flash_init\<close> (both only
  consulted after a truncated partition), \<open>esp_netif_init\<close>,
  \<open>esp_event_loop_create_default\<close>, \<open>adc_oneshot_new_unit\<close>, \<open>gpio_config\<close>, and for each
  sensor \<open>adc_oneshot_config_channel\<close> and \<open>adc_cali_create_scheme_curve_fitting\<close>.\<close>

record init_env =
  nvs_flash_init_rc :: esp_err_t
  nvs_flash_erase_rc :: esp_err_t
  nvs_flash_init_again_rc :: esp_err_t
  esp_netif_init_rc :: esp_err_t
  esp_event_loop_rc :: esp_err_t
  new_unit :: "esp_err_t \<times> adc_oneshot_unit_handle_t"
  gpio_config_rc :: esp_err_t
  bat_config_channel_rc :: esp_err_t
  bat_curve_fitting :: "esp_err_t \<times> adc_cali_handle_t"
  soil_config_channel_rc :: esp_err_t
  soil_curve_fitting :: "esp_err_t \<times> adc_cali_handle_t"

text \<open>\<open>factory_reset_init\<close> passes on the code of \<open>gpio_config\<close>.\<close>

definition factory_reset_init :: "esp_err_t \<Rightarrow> esp_err_t" where
  "factory_reset_init rc = (if rc \<noteq> ESP_OK then rc else ESP_OK)"

definition init_system :: "system_state \<Rightarrow> init_env \<Rightarrow> esp_err_t outcome \<times> system_state" where
  "init_system sys env =
     (let ret = nvs_flash_init_rc env;
          truncated = (ret = ESP_ERR_NVS_NO_FREE_PAGES \<or> ret = ESP_ERR_NVS_NEW_VERSION_FOUND)
      in if truncated \<and> nvs_flash_erase_rc env \<noteq> ESP_OK then (Aborted, sys)
         else
           (let ret = (if truncated then nvs_flash_init_again_rc env else ret) in
            if ret \<noteq> ESP_OK then (Returned ret, sys)
            else if esp_netif_init_rc env \<noteq> ESP_OK then (Returned (esp_netif_init_rc env), sys)
            else if esp_event_loop_rc env \<noteq> ESP_OK then (Returned (esp_event_loop_rc env), sys)
            else
              (case adc_manager_init (adc sys) (new_unit env) of
                 (ret, a1) \<Rightarrow>
                   if ret \<noteq> ESP_OK then (Returned ret, sys\<lparr>adc := a1\<rparr>)
                   else if factory_reset_init (gpio_config_rc env) \<noteq> ESP_OK
                   then (Returned (factory_reset_init (gpio_config_rc env)), sys\<lparr>adc := a1\<rparr>)
                   else
                     (case battery_monitor_init (battery sys) a1 (bat_config_channel_rc env)
                             (bat_curve_fitting env) of
                        (ret_bat, b1, a2) \<Rightarrow>
                          (case soil_moisture_init (soil sys) a2 (soil_config_channel_rc env)
                                  (soil_curve_fitting env) of
                             (ret_soil, s1, a3) \<Rightarrow>
                               (Returned ESP_OK, \<lparr>adc = a3, battery = b1, soil = s1\<rparr>))))))"

definition MQTT_WAIT_MS :: nat where "MQTT_WAIT_MS = 3000"
definition DEEP_SLEEP_INTERVAL_SEC :: nat where "DEEP_SLEEP_INTERVAL_SEC = 3600"

text \<open>The rest of a boot, as far as \<open>app_main\<close> looks at it: what \<open>setup_wifi\<close> and
  \<open>setup_mqtt\<close> return, what the \<open>n\<close>-th call of \<open>mqtt_publisher_is_connected\<close> in
  \<open>publish_telemetry_once\<close> answers (the flag is written by the MQTT client's task while
  \<open>app_main\<close> polls it), what the sensors read, and what
  \<open>mqtt_publisher_publish_telemetry\<close> returns.\<close>

record boot_env =
  init :: init_env
  setup_wifi_result :: "esp_err_t outcome"
  setup_mqtt_rc :: esp_err_t
  is_connected_at :: "nat \<Rightarrow> bool"
  bat_reads :: "nat \<Rightarrow> adc_read"
  soil_reads :: "nat \<Rightarrow> adc_read"
  raw_to_voltage_drv :: "adc_cali_handle_t \<Rightarrow> int \<Rightarrow> esp_err_t \<times> int"
  publish_rc :: esp_err_t

text \<open>The wait loop of \<open>publish_telemetry_once\<close>; each test of its condition calls
  \<open>mqtt_publisher_is_connected\<close> once, so the call number is \<open>wait_count\<close>.\<close>

function mqtt_wait_loop :: "(nat \<Rightarrow> bool) \<Rightarrow> nat \<Rightarrow> nat \<Rightarrow> nat" where
  "mqtt_wait_loop is_connected max_wait wait_count =
     (if \<not> is_connected wait_count \<and> wait_count < max_wait
      then mqtt_wait_loop is_connected max_wait (wait_count + 1)
      else wait_count)"
  by pat_completeness auto
termination
  by (relation "measure (\<lambda>(is_connected, max_wait, wait_count). max_wait - wait_count)") auto

text \<open>\<open>publish_telemetry_once\<close>: its return code and the battery voltage and moisture it
  handed to \<open>mqtt_publisher_publish_telemetry\<close>, if it got that far.\<close>

definition publish_telemetry_once ::
  "system_state \<Rightarrow> boot_env \<Rightarrow> esp_err_t \<times> (c_float \<times> c_float) option" where
  "publish_telemetry_once sys env =
     (let max_wait = MQTT_WAIT_MS div 100;
          wait_count = mqtt_wait_loop (is_connected_at env) max_wait 0
      in if \<not> is_connected_at env (wait_count + 1) then (ESP_FAIL, None)
         else
           (let voltage = battery_monitor_read_voltage (battery sys) (adc sys) (bat_reads env)
                            (raw_to_voltage_drv env);
                soil_moisture = soil_moisture_read_percentage (soil sys) (adc sys) (soil_reads env)
                            (raw_to_voltage_drv env)
            in if publish_rc env \<noteq> ESP_OK then (ESP_FAIL, Some (voltage, soil_moisture))
               else (ESP_OK, Some (voltage, soil_moisture))))"

text \<open>\<open>app_main\<close> as the sequence of steps it runs.\<close>

datatype boot_step =
    INIT_SYSTEM
  | SETUP_WIFI
  | SETUP_MQTT
  | PUBLISH_TELEMETRY "esp_err_t \<times> (c_float \<times> c_float) option"
  | DEEP_SLEEP nat
  | ABORT
  | RESTART

definition app_main :: "system_state \<Rightarrow> boot_env \<Rightarrow> boot_step list" where
  "app_main sys env =
     (case init_system sys (init env) of
        (Aborted, sys1) \<Rightarrow> [INIT_SYSTEM, ABORT]
      | (Restarted, sys1) \<Rightarrow> [INIT_SYSTEM, RESTART]
      | (Returned rc, sys1) \<Rightarrow>
          if rc \<noteq> ESP_OK then [INIT_SYSTEM, DEEP_SLEEP DEEP_SLEEP_INTERVAL_SEC]
          else
            (case setup_wifi_result env of
               Aborted \<Rightarrow> [INIT_SYSTEM, SETUP_WIFI, ABORT]
             | Restarted \<Rightarrow> [INIT_SYSTEM, SETUP_WIFI, RESTART]
             | Returned rc_wifi \<Rightarrow>
                 if rc_wifi \<noteq> ESP_OK
                 then [INIT_SYSTEM, SETUP_WIFI, DEEP_SLEEP DEEP_SLEEP_INTERVAL_SEC]
                 else if setup_mqtt_rc env \<noteq> ESP_OK
                 then [INIT_SYSTEM, SETUP_WIFI, SETUP_MQTT, DEEP_SLEEP DEEP_SLEEP_INTERVAL_SEC]
                 else [INIT_SYSTEM, SETUP_WIFI, SETUP_MQTT,
                       PUBLISH_TELEMETRY (publish_telemetry_once sys1 env),
                       DEEP_SLEEP DEEP_SLEEP_INTERVAL_SEC]))"

text \<open>The five initialisations whose failure \<open>init_system\<close> returns: NVS (after the retry
  that follows a truncated partition), the TCP/IP stack, the event loop, the ADC manager
  and the reset button.\<close>

definition nvs_init_ok :: "init_env \<Rightarrow> bool" where
  "nvs_init_ok env =
     (if nvs_flash_init_rc env = ESP_ERR_NVS_NO_FREE_PAGES \<or>
         nvs_flash_init_rc env = ESP_ERR_NVS_NEW_VERSION_FOUND
      then nvs_flash_erase_rc env = ESP_OK \<and> nvs_flash_init_again_rc env = ESP_OK
      else nvs_flash_init_rc env = ESP_OK)"

definition core_init_ok :: "system_state \<Rightarrow> init_env \<Rightarrow> bool" where
  "core_init_ok sys env =
     (nvs_init_ok env \<and> esp_netif_init_rc env = ESP_OK \<and> esp_event_loop_rc env = ESP_OK \<and>
      fst (adc_manager_init (adc sys) (new_unit env)) = ESP_OK \<and>
      factory_reset_init (gpio_config_rc env) = ESP_OK)"

text \<open>The one failure that does not return: \<open>nvs_flash_erase\<close> failing after a truncated
  partition, inside \<open>ESP_ERROR_CHECK\<close>. Otherwise NVS ends with the code of the only or of
  the second \<open>nvs_flash_init\<close>, and the five initialisations give these codes, in order.\<close>

definition nvs_erase_aborts :: "init_env \<Rightarrow> bool" where
  "nvs_erase_aborts env =
     ((nvs_flash_init_rc env = ESP_ERR_NVS_NO_FREE_PAGES \<or>
       nvs_flash_init_rc env = ESP_ERR_NVS_NEW_VERSION_FOUND) \<and>
      nvs_flash_erase_rc env \<noteq> ESP_OK)"

definition nvs_init_rc :: "init_env \<Rightarrow> esp_err_t" where
  "nvs_init_rc env =
     (if nvs_flash_init_rc env = ESP_ERR_NVS_NO_FREE_PAGES \<or>
         nvs_flash_init_rc env = ESP_ERR_NVS_NEW_VERSION_FOUND
      then nvs_flash_init_again_rc env else nvs_flash_init_rc env)"

definition core_init_rcs :: "system_state \<Rightarrow> init_env \<Rightarrow> esp_err_t list" where
  "core_init_rcs sys env =
     [nvs_init_rc env, esp_netif_init_rc env, esp_event_loop_rc env,
      fst (adc_manager_init (adc sys) (new_unit env)), factory_reset_init (gpio_config_rc env)]"

fun first_failure :: "esp_err_t list \<Rightarrow> esp_err_t" where
  "first_failure [] = ESP_OK"
| "first_failure (rc # rcs) = (if rc \<noteq> ESP_OK then rc else first_failure rcs)"

text \<open>The calls of \<open>battery_monitor_init\<close> and \<open>soil_moisture_init\<close> that \<open>init_system\<close>
  makes once the five initialisations before them have succeeded, with the ADC manager's
  statics as they are at that point.\<close>

definition battery_init_call ::
  "system_state \<Rightarrow> init_env \<Rightarrow> esp_err_t \<times> battery_state \<times> adc_manager_state" where
  "battery_init_call sys env =
     battery_monitor_init (battery sys) (snd (adc_manager_init (adc sys) (new_unit env)))
       (bat_config_channel_rc env) (bat_curve_fitting env)"

definition soil_init_call ::
  "system_state \<Rightarrow> init_env \<Rightarrow> esp_err_t \<times> soil_state \<times> adc_manager_state" where
  "soil_init_call sys env =
     soil_moisture_init (soil sys) (snd (snd (battery_init_call sys env)))
       (soil_config_channel_rc env) (soil_curve_fitting env)"

text \<open>A boot used as an example: the channel configuration of the battery monitor and the
  calibration of the soil sensor fail, everything else succeeds, and the MQTT flag is
  never seen set.\<close>

definition sensors_fail_init :: init_env where
  "sensors_fail_init =
     \<lparr>nvs_flash_init_rc = ESP_OK, nvs_flash_erase_rc = ESP_OK, nvs_flash_init_again_rc = ESP_OK,
      esp_netif_init_rc = ESP_OK, esp_event_loop_rc = ESP_OK, new_unit = (ESP_OK, Some 1),
      gpio_config_rc = ESP_OK, bat_config_channel_rc = ESP_ERR_INVALID_ARG,
      bat_curve_fitting = (ESP_OK, Some 10), soil_config_channel_rc = ESP_OK,
      soil_curve_fitting = (ESP_ERR_NO_MEM, None)\<rparr>"

definition sensors_fail_boot :: boot_env where
  "sensors_fail_boot =
     \<lparr>init = sensors_fail_init, setup_wifi_result = Returned ESP_OK, setup_mqtt_rc = ESP_OK,
      is_connected_at = (\<lambda>n. False), bat_reads = example_reads, soil_reads = example_reads,
      raw_to_voltage_drv = example_raw_to_voltage, publish_rc = ESP_OK\<rparr>"

text \<open>One where the event loop cannot be created, and one where the NVS partition is
  truncated and cannot be erased.\<close>

definition event_loop_fails_boot :: boot_env where
  "event_loop_fails_boot = sensors_fail_boot\<lparr>init := sensors_fail_init\<lparr>esp_event_loop_rc := ESP_FAIL\<rparr>\<rparr>"

definition nvs_erase_fails_boot :: boot_env where
  "nvs_erase_fails_boot =
     sensors_fail_boot\<lparr>init := sensors_fail_init\<lparr>nvs_flash_init_rc := ESP_ERR_NVS_NO_FREE_PAGES,
       nvs_flash_erase_rc := ESP_FAIL\<rparr>\<rparr>"

section \<open>Results\<close>

subsection \<open>The MQTT connected flag\<close>

text \<open>C4 (what the code does): delivering a connected event leaves the flag cleared,
  whatever the state before, so \<open>mqtt_publisher_is_connected\<close> answers \<open>false\<close> right after
  the event and no disconnected event is needed for that.\<close>

theorem mqtt_connected_event_clears_flag:
  "mqtt_publisher_is_connected (mqtt_event_handler MQTT_EVENT_CONNECTED s) = False"
  by (simp add: mqtt_publisher_is_connected_def case_MQTT_EVENT_CONNECTED_def
      case_MQTT_EVENT_DISCONNECTED_def)

text \<open>No sequence of events sets the flag: after the handler has returned, it is cleared.\<close>

lemma mqtt_flag_never_set:
  "\<not> mqtt_publisher_is_connected (fold mqtt_event_handler events mqtt_state_init)"
proof -
  have "\<not> mqtt_connected s \<Longrightarrow> \<not> mqtt_connected (fold mqtt_event_handler events s)" for s
  proof (induction events arbitrary: s)
    case Nil
    then show ?case by simp
  next
    case (Cons e es)
    have "\<not> mqtt_connected (mqtt_event_handler e s)"
      using Cons.prems
      by (cases e) (simp_all add: case_MQTT_EVENT_CONNECTED_def case_MQTT_EVENT_DISCONNECTED_def)
    then show ?case using Cons.IH by simp
  qed
  then show ?thesis by (simp add: mqtt_publisher_is_connected_def mqtt_state_init_def)
qed

subsection \<open>The calibration registry\<close>

lemma get_cali_None:
  "\<forall>e \<in> set tbl. in_use e \<longrightarrow> handle e \<noteq> None \<Longrightarrow>
   (adc_manager_get_cali_handle tbl ch att = None) =
   (\<forall>e \<in> set tbl. \<not> (in_use e \<and> channel e = ch \<and> atten e = att))"
  by (induction tbl) auto

lemma get_cali_found:
  "one_entry_per_pair tbl \<Longrightarrow> i < length tbl \<Longrightarrow> in_use (tbl ! i) \<Longrightarrow>
   adc_manager_get_cali_handle tbl (channel (tbl ! i)) (atten (tbl ! i)) = handle (tbl ! i)"
proof (induction tbl arbitrary: i)
  case Nil
  then show ?case by simp
next
  case (Cons e es)
  show ?case
  proof (cases "in_use e \<and> channel e = channel ((e # es) ! i) \<and> atten e = atten ((e # es) ! i)")
    case True
    have "0 < length (e # es)" by simp
    with Cons.prems True have "0 = i"
      unfolding one_entry_per_pair_def
      by (metis nth_Cons_0)
    then show ?thesis using True by auto
  next
    case False
    then obtain k where k: "i = Suc k" using Cons.prems(3) by (cases i) auto
    have "one_entry_per_pair es"
      using Cons.prems(1) unfolding one_entry_per_pair_def
      by (metis Suc_less_eq length_Cons nat.inject nth_Cons_Suc)
    then show ?thesis using Cons.IH[of k] Cons.prems False k by auto
  qed
qed

lemma find_free_slot_full:
  "(find_free_slot tbl i = - 1) = (\<forall>e \<in> set tbl. in_use e)"
  by (induction tbl arbitrary: i) auto

lemma find_free_slot_range:
  "find_free_slot tbl i \<noteq> - 1 \<Longrightarrow>
   int i \<le> find_free_slot tbl i \<and> nat (find_free_slot tbl i) - i < length tbl \<and>
   \<not> in_use (tbl ! (nat (find_free_slot tbl i) - i))"
proof (induction tbl arbitrary: i)
  case Nil
  then show ?case by simp
next
  case (Cons e es)
  show ?case
  proof (cases "in_use e")
    case False
    then show ?thesis by simp
  next
    case True
    with Cons.prems have ne: "find_free_slot es (Suc i) \<noteq> - 1" by simp
    from Cons.IH[OF ne] have ih: "int (Suc i) \<le> find_free_slot es (Suc i)"
      "nat (find_free_slot es (Suc i)) - Suc i < length es"
      "\<not> in_use (es ! (nat (find_free_slot es (Suc i)) - Suc i))" by auto
    from ih(1) have "nat (find_free_slot es (Suc i)) - i = Suc (nat (find_free_slot es (Suc i)) - Suc i)"
      by linarith
    then show ?thesis using True ih by simp
  qed
qed


lemma create_cali_cases:
  "adc_manager_create_cali tbl ch att out drv = (err, tbl', out') \<Longrightarrow>
   tbl' = tbl \<or>
   (adc_manager_get_cali_handle tbl ch att = None \<and> find_free_slot tbl 0 \<noteq> - 1 \<and>
    fst drv = ESP_OK \<and>
    tbl' = tbl[nat (find_free_slot tbl 0) :=
      \<lparr>channel = ch, atten = att, handle = snd drv, in_use = True\<rparr>])"
  by (auto simp: adc_manager_create_cali_def Let_def split: option.splits if_splits)

lemma update_free_slot_inv:
  assumes inv: "cali_registry_inv tbl"
    and none: "adc_manager_get_cali_handle tbl ch att = None"
    and k: "k < length tbl" "\<not> in_use (tbl ! k)"
    and h: "h \<noteq> None"
  shows "cali_registry_inv (tbl[k := \<lparr>channel = ch, atten = att, handle = h, in_use = True\<rparr>])"
proof -
  let ?new = "\<lparr>channel = ch, atten = att, handle = h, in_use = True\<rparr>"
  let ?tbl = "tbl[k := ?new]"
  from inv have len: "length tbl = MAX_CALI_HANDLES" and uniq: "one_entry_per_pair tbl"
    and hs: "\<forall>e \<in> set tbl. in_use e \<longrightarrow> handle e \<noteq> None"
    by (simp_all add: cali_registry_inv_def)
  from none hs have nomatch: "\<forall>e \<in> set tbl. \<not> (in_use e \<and> channel e = ch \<and> atten e = att)"
    by (simp add: get_cali_None)
  have "one_entry_per_pair ?tbl"
    unfolding one_entry_per_pair_def
  proof (intro allI impI)
    fix i j
    assume i: "i < length ?tbl" and j: "j < length ?tbl"
      and m: "in_use (?tbl ! i) \<and> in_use (?tbl ! j) \<and> channel (?tbl ! i) = channel (?tbl ! j) \<and>
        atten (?tbl ! i) = atten (?tbl ! j)"
    show "i = j"
    proof (cases "i = k")
      case ik: True
      show ?thesis
      proof (cases "j = k")
        case True
        with ik show ?thesis by simp
      next
        case False
        with ik m i j k have "in_use (tbl ! j) \<and> channel (tbl ! j) = ch \<and> atten (tbl ! j) = att"
          by simp
        moreover have "tbl ! j \<in> set tbl" using j by simp
        ultimately show ?thesis using nomatch by blast
      qed
    next
      case ik: False
      show ?thesis
      proof (cases "j = k")
        case True
        with ik m i j k have "in_use (tbl ! i) \<and> channel (tbl ! i) = ch \<and> atten (tbl ! i) = att"
          by simp
        moreover have "tbl ! i \<in> set tbl" using i by simp
        ultimately show ?thesis using nomatch by blast
      next
        case False
        with ik m i j uniq show ?thesis
          unfolding one_entry_per_pair_def by simp
      qed
    qed
  qed
  moreover have "\<forall>e \<in> set ?tbl. in_use e \<longrightarrow> handle e \<noteq> None"
  proof
    fix e assume "e \<in> set ?tbl"
    then have "e = ?new \<or> e \<in> set tbl"
      using set_update_subset_insert[of tbl k ?new] by auto
    then show "in_use e \<longrightarrow> handle e \<noteq> None" using hs h by auto
  qed
  ultimately show ?thesis using len by (simp add: cali_registry_inv_def)
qed

lemma create_cali_inv:
  assumes inv: "cali_registry_inv tbl" and drv: "curve_fitting_contract drv"
  shows "cali_registry_inv (fst (snd (adc_manager_create_cali tbl ch att out drv)))"
proof -
  obtain err tbl' out' where r: "adc_manager_create_cali tbl ch att out drv = (err, tbl', out')"
    by (cases "adc_manager_create_cali tbl ch att out drv") auto
  from create_cali_cases[OF r] show ?thesis
  proof
    assume "tbl' = tbl"
    with r inv show ?thesis by simp
  next
    assume a: "adc_manager_get_cali_handle tbl ch att = None \<and> find_free_slot tbl 0 \<noteq> - 1 \<and>
      fst drv = ESP_OK \<and>
      tbl' = tbl[nat (find_free_slot tbl 0) :=
        \<lparr>channel = ch, atten = att, handle = snd drv, in_use = True\<rparr>]"
    then have fr: "find_free_slot tbl 0 \<noteq> - 1" by simp
    from find_free_slot_range[OF fr]
    have k: "nat (find_free_slot tbl 0) < length tbl" "\<not> in_use (tbl ! nat (find_free_slot tbl 0))"
      by simp_all
    from a drv have h: "snd drv \<noteq> None" by (simp add: curve_fitting_contract_def)
    from update_free_slot_inv[OF inv _ k h, of ch att] a r show ?thesis by simp
  qed
qed

lemma create_cali_keeps_entries:
  assumes r: "adc_manager_create_cali tbl ch att out drv = (err, tbl', out')"
  shows "length tbl' = length tbl \<and> (\<forall>i < length tbl. in_use (tbl ! i) \<longrightarrow> tbl' ! i = tbl ! i)"
proof -
  from create_cali_cases[OF r] show ?thesis
  proof
    assume "tbl' = tbl" then show ?thesis by simp
  next
    assume a: "adc_manager_get_cali_handle tbl ch att = None \<and> find_free_slot tbl 0 \<noteq> - 1 \<and>
      fst drv = ESP_OK \<and>
      tbl' = tbl[nat (find_free_slot tbl 0) :=
        \<lparr>channel = ch, atten = att, handle = snd drv, in_use = True\<rparr>]"
    then have fr: "find_free_slot tbl 0 \<noteq> - 1" by simp
    from find_free_slot_range[OF fr]
    have k: "\<not> in_use (tbl ! nat (find_free_slot tbl 0))" by simp
    have "\<forall>i < length tbl. in_use (tbl ! i) \<longrightarrow> tbl' ! i = tbl ! i"
    proof (intro allI impI)
      fix i assume "i < length tbl" and u: "in_use (tbl ! i)"
      from u k have "i \<noteq> nat (find_free_slot tbl 0)" by auto
      with a show "tbl' ! i = tbl ! i" by simp
    qed
    with a show ?thesis by simp
  qed
qed

lemma cali_handles_init_inv: "cali_registry_inv cali_handles_init"
  by (simp add: cali_registry_inv_def cali_handles_init_def one_entry_per_pair_def
      cali_entry_zero_def)

lemma boot_cycle_inv:
  "cali_registry_inv tbl \<Longrightarrow> \<forall>c \<in> set cs. curve_fitting_contract (call_drv c) \<Longrightarrow>
   cali_registry_inv (boot_cycle tbl cs)"
  by (induction cs arbitrary: tbl) (simp_all add: create_cali_inv)

text \<open>C2: in every table a boot cycle can reach (the driver keeping its contract), no two
  slots in use hold the same (channel, attenuation) pair; a request for a pair that is in
  the table returns \<open>ESP_OK\<close> and the cached handle and leaves the table as it is; a request
  for a pair that is not in the table, when every slot is in use, returns
  \<open>ESP_ERR_NO_MEM\<close> and leaves the table and the caller's handle as they are; and no call
  changes the size of the table or a slot that is in use.\<close>

theorem adc_manager_registry_unique_and_capped:
  assumes drv: "\<forall>c \<in> set calls. curve_fitting_contract (call_drv c)"
    and tbl: "tbl = boot_cycle cali_handles_init calls"
  shows "one_entry_per_pair tbl \<and>
    (\<forall>i < length tbl. in_use (tbl ! i) \<longrightarrow>
       adc_manager_create_cali tbl (channel (tbl ! i)) (atten (tbl ! i)) (Some cell) d =
         (ESP_OK, tbl, Some (handle (tbl ! i)))) \<and>
    ((\<forall>e \<in> set tbl. in_use e \<and> \<not> (channel e = ch \<and> atten e = att)) \<longrightarrow>
       adc_manager_create_cali tbl ch att (Some cell) d = (ESP_ERR_NO_MEM, tbl, Some cell)) \<and>
    length (fst (snd (adc_manager_create_cali tbl ch att out d))) = MAX_CALI_HANDLES \<and>
    (\<forall>i < length tbl. in_use (tbl ! i) \<longrightarrow>
       fst (snd (adc_manager_create_cali tbl ch att out d)) ! i = tbl ! i)"
proof -
  have inv: "cali_registry_inv tbl"
    unfolding tbl using cali_handles_init_inv drv by (rule boot_cycle_inv)
  then have len: "length tbl = MAX_CALI_HANDLES" and uniq: "one_entry_per_pair tbl"
    and hs: "\<forall>e \<in> set tbl. in_use e \<longrightarrow> handle e \<noteq> None"
    by (simp_all add: cali_registry_inv_def)
  have cached: "\<forall>i < length tbl. in_use (tbl ! i) \<longrightarrow>
       adc_manager_create_cali tbl (channel (tbl ! i)) (atten (tbl ! i)) (Some cell) d =
         (ESP_OK, tbl, Some (handle (tbl ! i)))"
  proof (intro allI impI)
    fix i assume i: "i < length tbl" and u: "in_use (tbl ! i)"
    have g: "adc_manager_get_cali_handle tbl (channel (tbl ! i)) (atten (tbl ! i)) = handle (tbl ! i)"
      using uniq i u by (rule get_cali_found)
    from hs i u obtain h where "handle (tbl ! i) = Some h" by fastforce
    with g show "adc_manager_create_cali tbl (channel (tbl ! i)) (atten (tbl ! i)) (Some cell) d =
         (ESP_OK, tbl, Some (handle (tbl ! i)))"
      by (simp add: adc_manager_create_cali_def)
  qed
  have full: "(\<forall>e \<in> set tbl. in_use e \<and> \<not> (channel e = ch \<and> atten e = att)) \<longrightarrow>
       adc_manager_create_cali tbl ch att (Some cell) d = (ESP_ERR_NO_MEM, tbl, Some cell)"
  proof
    assume a: "\<forall>e \<in> set tbl. in_use e \<and> \<not> (channel e = ch \<and> atten e = att)"
    then have "adc_manager_get_cali_handle tbl ch att = None"
      using hs by (simp add: get_cali_None)
    moreover from a have "find_free_slot tbl 0 = - 1" by (simp add: find_free_slot_full)
    ultimately show "adc_manager_create_cali tbl ch att (Some cell) d = (ESP_ERR_NO_MEM, tbl, Some cell)"
      by (simp add: adc_manager_create_cali_def)
  qed
  obtain err tbl' out' where r: "adc_manager_create_cali tbl ch att out d = (err, tbl', out')"
    by (cases "adc_manager_create_cali tbl ch att out d") auto
  from create_cali_keeps_entries[OF r] r len
  have keep: "length (fst (snd (adc_manager_create_cali tbl ch att out d))) = MAX_CALI_HANDLES \<and>
    (\<forall>i < length tbl. in_use (tbl ! i) \<longrightarrow>
       fst (snd (adc_manager_create_cali tbl ch att out d)) ! i = tbl ! i)"
    by simp
  from uniq cached full keep show ?thesis by blast
qed

lemma registry_example_table: "boot_cycle cali_handles_init registry_example_calls =
  [\<lparr>channel = 0, atten = 3, handle = Some 10, in_use = True\<rparr>,
   \<lparr>channel = 1, atten = 3, handle = Some 11, in_use = True\<rparr>,
   \<lparr>channel = 2, atten = 0, handle = Some 13, in_use = True\<rparr>,
   \<lparr>channel = 3, atten = 0, handle = Some 14, in_use = True\<rparr>]"
  by (simp add: registry_example_calls_def cali_handles_init_def MAX_CALI_HANDLES_def cali_entry_zero_def
      adc_manager_create_cali_def numeral_eq_Suc)

theorem adc_manager_registry_unique_and_capped_witness:
  "one_entry_per_pair (boot_cycle cali_handles_init registry_example_calls) \<and>
   adc_manager_create_cali (boot_cycle cali_handles_init registry_example_calls) 1 3 (Some None) (ESP_OK, Some 99) =
     (ESP_OK, boot_cycle cali_handles_init registry_example_calls, Some (Some 11)) \<and>
   adc_manager_create_cali (boot_cycle cali_handles_init registry_example_calls) 7 3 (Some None) (ESP_OK, Some 99) =
     (ESP_ERR_NO_MEM, boot_cycle cali_handles_init registry_example_calls, Some None)"
proof -
  let ?T = "boot_cycle cali_handles_init registry_example_calls"
  have h: "\<forall>c \<in> set registry_example_calls. curve_fitting_contract (call_drv c)"
    by (simp add: registry_example_calls_def curve_fitting_contract_def)
  note t = adc_manager_registry_unique_and_capped[OF h refl, of None "(ESP_OK, Some 99)" 7 3 None]
  from t have u: "one_entry_per_pair ?T" by blast
  from t have "1 < length ?T \<longrightarrow> in_use (?T ! 1) \<longrightarrow>
       adc_manager_create_cali ?T (channel (?T ! 1)) (atten (?T ! 1)) (Some None) (ESP_OK, Some 99) =
         (ESP_OK, ?T, Some (handle (?T ! 1)))" by blast
  then have c: "adc_manager_create_cali ?T 1 3 (Some None) (ESP_OK, Some 99) =
     (ESP_OK, ?T, Some (Some 11))"
    by (simp add: registry_example_table)
  from t have "(\<forall>e \<in> set ?T. in_use e \<and> \<not> (channel e = 7 \<and> atten e = 3)) \<longrightarrow>
       adc_manager_create_cali ?T 7 3 (Some None) (ESP_OK, Some 99) = (ESP_ERR_NO_MEM, ?T, Some None)"
    by blast
  then have f: "adc_manager_create_cali ?T 7 3 (Some None) (ESP_OK, Some 99) =
     (ESP_ERR_NO_MEM, ?T, Some None)"
    by (simp add: registry_example_table)
  from u c f show ?thesis by blast
qed

subsection \<open>Sampling and averaging\<close>

lemma sample_loop_filter:
  "sample_loop rs (vs, n) =
     sample_loop (filter (\<lambda>r. fst r = ESP_OK) rs) (vs, n)"
  by (induction rs arbitrary: vs n) auto

lemma sample_loop_valid:
  "sample_loop rs (vs, n) =
     (uint32 (vs + sum_list (map snd (filter (\<lambda>r. fst r = ESP_OK) rs))),
      n + int (length (filter (\<lambda>r. fst r = ESP_OK) rs)))" if "vs = uint32 vs"
  using that
proof (induction rs arbitrary: vs n)
  case Nil
  then show ?case by simp
next
  case (Cons r rs)
  obtain err raw where r: "r = (err, raw)" by (cases r)
  show ?case
  proof (cases "err = ESP_OK")
    case True
    have "uint32 (vs + raw) = uint32 (uint32 (vs + raw))" by (simp add: uint32_def)
    from Cons.IH[OF this, of "n + 1"] True r show ?thesis
      by (simp add: uint32_def mod_simps add.assoc)
  next
    case False
    with Cons r show ?thesis by simp
  qed
qed


lemma length_valid_raw_samples: "length (valid_raw_samples reads) \<le> SAMPLE_COUNT"
proof -
  have "length (filter (\<lambda>r. fst r = ESP_OK) (map reads [0..<SAMPLE_COUNT]))
      \<le> length (map reads [0..<SAMPLE_COUNT])"
    by (rule length_filter_le)
  then show ?thesis by (simp add: valid_raw_samples_def)
qed

lemma sample_loop_mean:
  assumes nonneg: "\<forall>r \<in> set (valid_raw_samples reads). 0 \<le> r"
    and bound: "sum_list (valid_raw_samples reads) < 2 ^ 31"
  shows "sample_loop (map reads [0..<SAMPLE_COUNT]) (0, 0) =
     (sum_list (valid_raw_samples reads), int (length (valid_raw_samples reads)))"
proof -
  have "0 \<le> sum_list (valid_raw_samples reads)"
    using nonneg by (simp add: sum_list_nonneg)
  with bound have "uint32 (sum_list (valid_raw_samples reads)) = sum_list (valid_raw_samples reads)"
    by (simp add: uint32_def)
  moreover have "(0::int) = uint32 0" by (simp add: uint32_def)
  ultimately show ?thesis
    using sample_loop_valid[of 0 "map reads [0..<SAMPLE_COUNT]" 0]
    by (simp add: valid_raw_samples_def)
qed

lemma avg_raw_mean:
  assumes k: "valid_raw_samples reads \<noteq> []"
    and nonneg: "\<forall>r \<in> set (valid_raw_samples reads). 0 \<le> r"
    and bound: "sum_list (valid_raw_samples reads) < 2 ^ 31"
  shows "int32 (sum_list (valid_raw_samples reads) div uint32 (int (length (valid_raw_samples reads)))) =
     sum_list (valid_raw_samples reads) div int (length (valid_raw_samples reads))"
proof -
  let ?v = "valid_raw_samples reads"
  have s0: "0 \<le> sum_list ?v" using nonneg by (simp add: sum_list_nonneg)
  have "int (length ?v) \<le> 10" using length_valid_raw_samples[of reads] by (simp add: SAMPLE_COUNT_def)
  then have u: "uint32 (int (length ?v)) = int (length ?v)" by (simp add: uint32_def)
  have kpos: "0 < int (length ?v)" using k by simp
  have d0: "0 \<le> sum_list ?v div int (length ?v)" using s0 kpos by (simp add: pos_imp_zdiv_nonneg_iff)
  have "sum_list ?v div int (length ?v) \<le> sum_list ?v"
    using zdiv_mono2[of "sum_list ?v" 1 "int (length ?v)"] s0 kpos by simp
  with bound have d1: "sum_list ?v div int (length ?v) < 2 ^ 31" by linarith
  from d0 d1 have "int32 (sum_list ?v div int (length ?v)) = sum_list ?v div int (length ?v)"
    by (simp add: int32_def)
  with u show ?thesis by simp
qed

text \<open>C8: in a read call with at least one valid sample, where the valid samples are
  not negative and their sum is below \<open>2 ^ 31\<close> (ADC counts of at most 12 bits always
  are), the loop leaves the sum of exactly the valid samples in \<open>value_sum\<close> and their
  number in \<open>valid_samples\<close>, and both the battery and the soil-moisture read hand the
  integer mean of the valid samples, and nothing else, to the calibration.\<close>

theorem raw_average_is_mean_of_valid_samples:
  assumes k: "valid_raw_samples reads \<noteq> []"
    and nonneg: "\<forall>r \<in> set (valid_raw_samples reads). 0 \<le> r"
    and bound: "sum_list (valid_raw_samples reads) < 2 ^ 31"
    and ini: "bat_initialized b" "soil_initialized s" "adc_manager_get_handle a \<noteq> None"
  shows "sample_loop (map reads [0..<SAMPLE_COUNT]) (0, 0) =
       (sum_list (valid_raw_samples reads), int (length (valid_raw_samples reads))) \<and>
     battery_monitor_read_voltage b a reads raw_to_voltage =
       (case raw_to_voltage (bat_cali_handle b)
          (sum_list (valid_raw_samples reads) div int (length (valid_raw_samples reads))) of
          (err, voltage_mV) \<Rightarrow>
            if err \<noteq> ESP_OK then 0 else real_of_int voltage_mV * VOLTAGE_DIVIDER / 1000) \<and>
     soil_moisture_read_voltage s a reads raw_to_voltage =
       (case raw_to_voltage (soil_cali_handle s)
          (sum_list (valid_raw_samples reads) div int (length (valid_raw_samples reads))) of
          (err, voltage_mV) \<Rightarrow>
            if err \<noteq> ESP_OK then 0 else real_of_int voltage_mV / 1000)"
proof -
  note loop = sample_loop_mean[OF nonneg bound]
  note avg = avg_raw_mean[OF k nonneg bound]
  have kpos: "int (length (valid_raw_samples reads)) \<noteq> 0" using k by simp
  have bat: "battery_monitor_read_voltage b a reads raw_to_voltage =
       (case raw_to_voltage (bat_cali_handle b)
          (sum_list (valid_raw_samples reads) div int (length (valid_raw_samples reads))) of
          (err, voltage_mV) \<Rightarrow>
            if err \<noteq> ESP_OK then 0 else real_of_int voltage_mV * VOLTAGE_DIVIDER / 1000)"
    using ini kpos by (auto simp add: battery_monitor_read_voltage_def loop avg Let_def)
  have soil: "soil_moisture_read_voltage s a reads raw_to_voltage =
       (case raw_to_voltage (soil_cali_handle s)
          (sum_list (valid_raw_samples reads) div int (length (valid_raw_samples reads))) of
          (err, voltage_mV) \<Rightarrow>
            if err \<noteq> ESP_OK then 0 else real_of_int voltage_mV / 1000)"
    using ini kpos by (auto simp add: soil_moisture_read_voltage_def loop avg Let_def)
  from loop bat soil show ?thesis by simp
qed


lemma upt_10: "[0..<10] = [0, 1, 2, 3, 4, 5, 6, 7, 8, 9]"
  by (simp add: upt_rec)

lemma example_valid: "valid_raw_samples example_reads = [2000, 2001, 2003, 2004, 2005, 2006, 2008, 2009]"
  by (simp add: valid_raw_samples_def SAMPLE_COUNT_def upt_10 example_reads_def)

theorem raw_average_is_mean_of_valid_samples_witness:
  "sample_loop (map example_reads [0..<SAMPLE_COUNT]) (0, 0) = (16036, 8) \<and>
   battery_monitor_read_voltage example_battery
     example_adc
     example_reads example_raw_to_voltage = 3.7 \<and>
   soil_moisture_read_voltage example_soil
     example_adc
     example_reads example_raw_to_voltage = 1.85"
  using raw_average_is_mean_of_valid_samples[of example_reads
      example_battery
      example_soil
      example_adc
      example_raw_to_voltage]
  by (simp add: example_valid adc_manager_get_handle_def example_raw_to_voltage_def
      VOLTAGE_DIVIDER_def example_battery_def example_soil_def example_adc_def)


subsection \<open>The moisture conversion\<close>

lemma moisture_of_mV_piecewise:
  "moisture_of_mV v =
     (if v \<ge> SENSOR_DRY_MV then 0
      else if v \<le> SENSOR_WET_MV then 100
      else 100 * real_of_int (SENSOR_DRY_MV - v) / real_of_int (SENSOR_DRY_MV - SENSOR_WET_MV))"
proof -
  have "100 * real_of_int (2950 - v) / 2099 \<le> 100" if "851 < v"
  proof -
    from that have "real_of_int (2950 - v) \<le> 2099" by simp
    then show ?thesis by simp
  qed
  moreover have "0 \<le> 100 * real_of_int (2950 - v) / 2099" if "v < 2950"
    using that by simp
  ultimately show ?thesis
    by (auto simp: moisture_of_mV_def Let_def SENSOR_DRY_MV_def SENSOR_WET_MV_def not_le)
qed

lemma moisture_of_mV_range: "0 \<le> moisture_of_mV v \<and> moisture_of_mV v \<le> 100"
  by (simp add: moisture_of_mV_def Let_def)

lemma moisture_of_mV_mono:
  assumes "v1 \<le> v2"
  shows "moisture_of_mV v2 \<le> moisture_of_mV v1"
proof -
  have a: "100 * real_of_int (2950 - v2) / 2099 \<le> 100 * real_of_int (2950 - v1) / 2099"
    using assms by (simp add: divide_right_mono)
  have b: "100 * real_of_int (2950 - v2) / 2099 \<le> 100" if "851 < v2"
  proof -
    from that have "real_of_int (2950 - v2) \<le> 2099" by simp
    then show ?thesis by simp
  qed
  have c: "0 \<le> 100 * real_of_int (2950 - v1) / 2099" if "v1 < 2950"
    using that by simp
  show ?thesis
    unfolding moisture_of_mV_piecewise SENSOR_DRY_MV_def SENSOR_WET_MV_def
    using assms a b c by auto
qed

text \<open>C7: the moisture conversion does not increase when the millivolt value grows, is
  exactly 0 at \<open>SENSOR_DRY_MV\<close> and exactly 100 at \<open>SENSOR_WET_MV\<close>, and lies between 0 and
  100 for every millivolt value; so does what \<open>soil_moisture_read_percentage\<close> returns.\<close>

theorem moisture_monotone_exact_clamped:
  "(v1 < v2 \<longrightarrow> moisture_of_mV v2 \<le> moisture_of_mV v1) \<and>
   moisture_of_mV SENSOR_DRY_MV = 0 \<and>
   moisture_of_mV SENSOR_WET_MV = 100 \<and>
   0 \<le> moisture_of_mV v \<and> moisture_of_mV v \<le> 100 \<and>
   0 \<le> soil_moisture_read_percentage s a reads raw_to_voltage \<and>
   soil_moisture_read_percentage s a reads raw_to_voltage \<le> 100"
proof -
  have "v1 < v2 \<longrightarrow> moisture_of_mV v2 \<le> moisture_of_mV v1"
    by (simp add: moisture_of_mV_mono)
  moreover have "moisture_of_mV SENSOR_DRY_MV = 0"
    by (simp add: moisture_of_mV_piecewise)
  moreover have "moisture_of_mV SENSOR_WET_MV = 100"
    by (simp add: moisture_of_mV_piecewise SENSOR_DRY_MV_def SENSOR_WET_MV_def)
  moreover have "0 \<le> soil_moisture_read_percentage s a reads raw_to_voltage \<and>
      soil_moisture_read_percentage s a reads raw_to_voltage \<le> 100"
    using moisture_of_mV_range by (simp add: soil_moisture_read_percentage_def Let_def)
  ultimately show ?thesis using moisture_of_mV_range[of v] by blast
qed

theorem moisture_monotone_exact_clamped_witness:
  "(1000::int) < 2000 \<and> moisture_of_mV 2000 \<le> moisture_of_mV 1000 \<and>
   moisture_of_mV 1000 = 195000 / 2099 \<and> moisture_of_mV 2000 = 95000 / 2099 \<and>
   moisture_of_mV 2950 = 0 \<and> moisture_of_mV 851 = 100 \<and>
   moisture_of_mV 3300 = 0 \<and> moisture_of_mV 0 = 100"
proof -
  have "(1000::int) < 2000" by simp
  moreover from this have "moisture_of_mV 2000 \<le> moisture_of_mV 1000"
    using moisture_monotone_exact_clamped[of 1000 2000] by blast
  moreover have "moisture_of_mV 1000 = 195000 / 2099" "moisture_of_mV 2000 = 95000 / 2099"
    "moisture_of_mV 2950 = 0" "moisture_of_mV 851 = 100" "moisture_of_mV 3300 = 0"
    "moisture_of_mV 0 = 100"
    by (simp_all add: moisture_of_mV_piecewise SENSOR_DRY_MV_def SENSOR_WET_MV_def)
  ultimately show ?thesis by blast
qed

subsection \<open>The percentage read\<close>

lemma example_soil_voltage:
  "soil_moisture_read_voltage example_soil example_adc example_reads example_raw_to_voltage = 1.85"
proof -
  have v: "valid_raw_samples example_reads \<noteq> []"
    "\<forall>r \<in> set (valid_raw_samples example_reads). 0 \<le> r"
    "sum_list (valid_raw_samples example_reads) < 2 ^ 31"
    by (simp_all add: example_valid)
  show ?thesis
    by (simp add: soil_moisture_read_voltage_def sample_loop_mean[OF v(2,3)]
        avg_raw_mean[OF v] example_valid example_soil_def example_adc_def
        adc_manager_get_handle_def example_raw_to_voltage_def int32_def uint32_def)
qed

lemma example_soil_mV:
  "c_int_of_float
     (soil_moisture_read_voltage example_soil example_adc example_reads example_raw_to_voltage * 1000) = 1850"
  by (simp add: example_soil_voltage c_int_of_float_def)

text \<open>C1: with the sensor initialised, \<open>soil_moisture_read_percentage\<close> maps the millivolt
  value \<open>voltage_mV\<close> it takes from the voltage reading by the piecewise-linear rule: 0 from
  \<open>SENSOR_DRY_MV\<close> = 2950 upwards, 100 up to \<open>SENSOR_WET_MV\<close> = 851, and
  \<open>100 * (dry - voltage_mV) / (dry - wet)\<close> in between; for \<open>voltage_mV\<close> = 1850 the result
  is within 0.1 of 52.4.\<close>

theorem soil_moisture_percentage_piecewise:
  assumes "soil_initialized s"
  shows "SENSOR_DRY_MV = 2950 \<and> SENSOR_WET_MV = 851 \<and>
    soil_moisture_read_percentage s a reads raw_to_voltage =
      (let voltage_mV = c_int_of_float (soil_moisture_read_voltage s a reads raw_to_voltage * 1000)
       in if voltage_mV \<ge> SENSOR_DRY_MV then 0
          else if voltage_mV \<le> SENSOR_WET_MV then 100
          else 100 * real_of_int (SENSOR_DRY_MV - voltage_mV) /
               real_of_int (SENSOR_DRY_MV - SENSOR_WET_MV)) \<and>
    (c_int_of_float (soil_moisture_read_voltage s a reads raw_to_voltage * 1000) = 1850 \<longrightarrow>
       \<bar>soil_moisture_read_percentage s a reads raw_to_voltage - 52.4\<bar> \<le> 0.1)"
proof -
  have p: "soil_moisture_read_percentage s a reads raw_to_voltage =
      moisture_of_mV (c_int_of_float (soil_moisture_read_voltage s a reads raw_to_voltage * 1000))"
    using assms by (simp add: soil_moisture_read_percentage_def Let_def)
  have e: "\<bar>moisture_of_mV 1850 - 52.4\<bar> \<le> 0.1"
    by (simp add: moisture_of_mV_piecewise SENSOR_DRY_MV_def SENSOR_WET_MV_def)
  show ?thesis
    using e by (simp add: p moisture_of_mV_piecewise Let_def SENSOR_DRY_MV_def SENSOR_WET_MV_def)
qed

theorem soil_moisture_percentage_piecewise_witness:
  "soil_initialized example_soil \<and>
   c_int_of_float
     (soil_moisture_read_voltage example_soil example_adc example_reads example_raw_to_voltage * 1000) = 1850 \<and>
   soil_moisture_read_percentage example_soil example_adc example_reads example_raw_to_voltage =
     110000 / 2099 \<and>
   \<bar>soil_moisture_read_percentage example_soil example_adc example_reads example_raw_to_voltage - 52.4\<bar>
     \<le> 0.1"
proof -
  have i: "soil_initialized example_soil" by (simp add: example_soil_def)
  note t = soil_moisture_percentage_piecewise[OF i, of example_adc example_reads example_raw_to_voltage]
  from t have "soil_moisture_read_percentage example_soil example_adc example_reads example_raw_to_voltage =
     110000 / 2099"
    by (simp add: example_soil_mV SENSOR_DRY_MV_def SENSOR_WET_MV_def)
  moreover from t have "\<bar>soil_moisture_read_percentage example_soil example_adc example_reads
      example_raw_to_voltage - 52.4\<bar> \<le> 0.1"
    using example_soil_mV by blast
  ultimately show ?thesis using i example_soil_mV by blast
qed

subsection \<open>A read call in which every sample fails\<close>

lemma sample_loop_all_failed:
  "\<forall>r \<in> set rs. fst r \<noteq> ESP_OK \<Longrightarrow> sample_loop rs acc = acc"
  by (induction rs arbitrary: acc) (auto split: prod.splits)

lemma read_loop_all_failed:
  assumes "\<forall>i < SAMPLE_COUNT. fst (reads i) \<noteq> ESP_OK"
  shows "sample_loop (map reads [0..<SAMPLE_COUNT]) (0, 0) = (0, 0)"
  using assms by (intro sample_loop_all_failed) auto

lemma zero_reads_loop: "sample_loop (map zero_reads [0..<SAMPLE_COUNT]) (0, 0) = (0, 10)"
  by (simp add: SAMPLE_COUNT_def upt_10 zero_reads_def uint32_def)

lemma zero_reads_voltage:
  "battery_monitor_read_voltage b a zero_reads identity_raw_to_voltage = 0"
  "soil_moisture_read_voltage s a zero_reads identity_raw_to_voltage = 0"
  by (simp_all add: battery_monitor_read_voltage_def soil_moisture_read_voltage_def
      zero_reads_loop identity_raw_to_voltage_def int32_def uint32_def)

text \<open>C3, as the code has it: when every sample read of a call fails, the battery and the
  soil-moisture voltage read both return 0. The returned number is all the caller gets:
  a call in which every sample is read as 0 and converted to 0 mV returns the same.\<close>

theorem all_reads_failed_reports_zero:
  assumes "\<forall>i < SAMPLE_COUNT. fst (reads i) \<noteq> ESP_OK"
  shows "battery_monitor_read_voltage b a reads raw_to_voltage = 0 \<and>
    soil_moisture_read_voltage s a reads raw_to_voltage = 0 \<and>
    battery_monitor_read_voltage b a reads raw_to_voltage =
      battery_monitor_read_voltage b a zero_reads identity_raw_to_voltage \<and>
    soil_moisture_read_voltage s a reads raw_to_voltage =
      soil_moisture_read_voltage s a zero_reads identity_raw_to_voltage"
proof -
  have "battery_monitor_read_voltage b a reads raw_to_voltage = 0"
    by (simp add: battery_monitor_read_voltage_def read_loop_all_failed[OF assms])
  moreover have "soil_moisture_read_voltage s a reads raw_to_voltage = 0"
    by (simp add: soil_moisture_read_voltage_def read_loop_all_failed[OF assms])
  ultimately show ?thesis by (simp add: zero_reads_voltage)
qed

theorem all_reads_failed_reports_zero_witness:
  "battery_monitor_read_voltage example_battery example_adc failed_reads example_raw_to_voltage = 0 \<and>
   soil_moisture_read_voltage example_soil example_adc failed_reads example_raw_to_voltage = 0"
  using all_reads_failed_reports_zero[of failed_reads example_battery example_adc
      example_raw_to_voltage example_soil]
  by (simp add: failed_reads_def)

text \<open>C3, against the claim: the soil-moisture voltage read returns the same value when
  all ten reads fail as when all ten succeed with a reading of zero, so nothing in the
  result tells the caller that the read failed.\<close>

theorem all_reads_failed_like_zero_reading:
  "soil_moisture_read_voltage example_soil example_adc failed_reads identity_raw_to_voltage =
   soil_moisture_read_voltage example_soil example_adc zero_reads identity_raw_to_voltage"
  by (simp add: soil_moisture_read_voltage_def zero_reads_loop read_loop_all_failed
      failed_reads_def identity_raw_to_voltage_def int32_def uint32_def)

text \<open>The percentage read turns the 0 V of a failed read into 100 percent.\<close>

lemma all_reads_failed_percentage:
  assumes "\<forall>i < SAMPLE_COUNT. fst (reads i) \<noteq> ESP_OK" and "soil_initialized s"
  shows "soil_moisture_read_percentage s a reads raw_to_voltage = 100"
proof -
  have "soil_moisture_read_voltage s a reads raw_to_voltage = 0"
    by (simp add: soil_moisture_read_voltage_def read_loop_all_failed[OF assms(1)])
  then show ?thesis using assms(2)
    by (simp add: soil_moisture_read_percentage_def c_int_of_float_def moisture_of_mV_piecewise
        SENSOR_DRY_MV_def SENSOR_WET_MV_def)
qed

subsection \<open>The reset button\<close>

text \<open>C5, against the claim: the button reads released at 90 ms, pressed at 100 ms and
  released again at 110 ms, a press of less than 20 ms. The press is accepted as the
  stable level at once, and the release 10 ms later is not.\<close>

theorem short_press_registers:
  "debounced_levels button_state_init [(1, 90000), (0, 100000), (1, 110000)] = [False, True, True]"
  by (simp add: is_button_pressed_def button_state_init_def get_time_ms_def BUTTON_PRESSED_def
      DEBOUNCE_TIME_MS_def Let_def)

text \<open>C5, as the code has it: \<open>is_button_pressed\<close> returns the stable level it keeps. It
  accepts a new stable level exactly when the raw level differs from the stable one and
  at least \<open>DEBOUNCE_TIME_MS\<close> have passed, in unsigned 32-bit milliseconds, since the last
  accepted change; it then takes the raw level and the time of this poll. Otherwise it
  changes nothing.\<close>

theorem debounce_accepts_after_window:
  assumes "is_button_pressed s level us = (r, s')"
  shows "r = last_stable_state s' \<and>
    ((last_stable_state s' \<noteq> last_stable_state s) =
       ((level = BUTTON_PRESSED) \<noteq> last_stable_state s \<and>
        DEBOUNCE_TIME_MS \<le> get_time_ms us - last_change_time s)) \<and>
    (last_stable_state s' \<noteq> last_stable_state s \<longrightarrow>
       last_stable_state s' = (level = BUTTON_PRESSED) \<and> last_change_time s' = get_time_ms us) \<and>
    (last_stable_state s' = last_stable_state s \<longrightarrow> s' = s)"
  using assms by (auto simp: is_button_pressed_def Let_def split: if_splits)


theorem debounce_accepts_after_window_witness:
  "is_button_pressed button_state_init 0 100000 = (True, press_100ms) \<and>
   last_stable_state press_100ms \<noteq> last_stable_state button_state_init \<and>
   DEBOUNCE_TIME_MS \<le> get_time_ms 100000 - last_change_time button_state_init \<and>
   last_change_time press_100ms = get_time_ms 100000"
proof -
  have e: "is_button_pressed button_state_init 0 100000 = (True, press_100ms)"
    by (simp add: is_button_pressed_def button_state_init_def get_time_ms_def BUTTON_PRESSED_def
        DEBOUNCE_TIME_MS_def Let_def press_100ms_def)
  have n: "last_stable_state press_100ms \<noteq> last_stable_state button_state_init"
    by (simp add: press_100ms_def button_state_init_def)
  from debounce_accepts_after_window[OF e] n e show ?thesis by blast
qed

lemma is_button_pressed_keeps:
  "is_button_pressed s level us = (r, s1) \<Longrightarrow>
   actions s1 = actions s \<and> reset_triggered s1 = reset_triggered s \<and>
   button_was_pressed s1 = button_was_pressed s \<and>
   button_press_start_ms s1 = button_press_start_ms s"
  by (auto simp: is_button_pressed_def Let_def split: if_splits)

lemma factory_reset_check_latched:
  "reset_triggered s \<Longrightarrow> factory_reset_check s p = s"
  by (simp add: factory_reset_check_def)

lemma factory_reset_check_actions:
  assumes "\<not> reset_triggered s"
    and "is_button_pressed s (gpio_level p) (timer_us_debounce p) = (r, s1)"
  shows "(if r \<and> button_was_pressed s \<and>
            LONG_PRESS_DURATION_MS \<le> get_time_ms (timer_us_check p) - button_press_start_ms s
          then actions (factory_reset_check s p) = actions s @ [WIFI_CREDENTIALS_CLEAR, ESP_RESTART] \<and>
               reset_triggered (factory_reset_check s p)
          else actions (factory_reset_check s p) = actions s \<and>
               \<not> reset_triggered (factory_reset_check s p))"
  using assms is_button_pressed_keeps[OF assms(2)]
  by (auto simp: factory_reset_check_def Let_def)

lemma factory_reset_check_inv:
  assumes "actions_inv s"
  shows "actions_inv (factory_reset_check s p)"
proof (cases "reset_triggered s")
  case True
  with assms show ?thesis by (simp add: factory_reset_check_latched)
next
  case False
  obtain r s1 where e: "is_button_pressed s (gpio_level p) (timer_us_debounce p) = (r, s1)"
    by (cases "is_button_pressed s (gpio_level p) (timer_us_debounce p)")
  from factory_reset_check_actions[OF False e] assms False show ?thesis
    by (auto simp: actions_inv_def split: if_splits)
qed

lemma factory_reset_checks_inv:
  "actions_inv s \<Longrightarrow> actions_inv (factory_reset_checks s ps)"
  by (induction ps arbitrary: s) (simp_all add: factory_reset_check_inv)

lemma button_state_init_inv: "actions_inv button_state_init"
  by (simp add: actions_inv_def button_state_init_def)

lemma factory_reset_checks_latched:
  "reset_triggered s \<Longrightarrow> factory_reset_checks s ps = s"
  by (induction ps) (simp_all add: factory_reset_check_latched)

lemma held_check:
  assumes "\<not> reset_triggered s" "button_was_pressed s" "last_stable_state s"
    "gpio_level p = BUTTON_PRESSED"
  shows "factory_reset_check s p =
     (if LONG_PRESS_DURATION_MS \<le> get_time_ms (timer_us_check p) - button_press_start_ms s
      then s\<lparr>reset_triggered := True,
             actions := actions s @ [WIFI_CREDENTIALS_CLEAR, ESP_RESTART]\<rparr>
      else s)"
  using assms by (simp add: factory_reset_check_def is_button_pressed_def Let_def)

lemma held_checks:
  assumes "\<not> reset_triggered s" "button_was_pressed s" "last_stable_state s"
    "\<forall>p \<in> set ps. gpio_level p = BUTTON_PRESSED"
  shows "reset_triggered (factory_reset_checks s ps) =
     (\<exists>p \<in> set ps.
        LONG_PRESS_DURATION_MS \<le> get_time_ms (timer_us_check p) - button_press_start_ms s)"
    and "\<not> reset_triggered (factory_reset_checks s ps) \<Longrightarrow> factory_reset_checks s ps = s"
  using assms
proof (induction ps arbitrary: s)
  case Nil
  { case 1 then show ?case by simp }
  { case 2 then show ?case by simp }
next
  case (Cons p ps)
  { case 1
    show ?case
    proof (cases "LONG_PRESS_DURATION_MS \<le> get_time_ms (timer_us_check p) - button_press_start_ms s")
      case True
      with 1 show ?thesis by (simp add: held_check factory_reset_checks_latched)
    next
      case False
      with 1 have "factory_reset_check s p = s" by (simp add: held_check)
      with 1 False Cons.IH(1)[of s] show ?thesis by simp
    qed }
  { case 2
    show ?case
    proof (cases "LONG_PRESS_DURATION_MS \<le> get_time_ms (timer_us_check p) - button_press_start_ms s")
      case True
      with 2 show ?thesis by (simp add: held_check factory_reset_checks_latched)
    next
      case False
      with 2 have "factory_reset_check s p = s" by (simp add: held_check)
      with 2 False Cons.IH(2)[of s] show ?thesis by simp
    qed }
qed

lemma release_check:
  assumes "\<not> reset_triggered s" "button_was_pressed s" "last_stable_state s"
    "gpio_level p \<noteq> BUTTON_PRESSED"
    "DEBOUNCE_TIME_MS \<le> get_time_ms (timer_us_debounce p) - last_change_time s"
  shows "factory_reset_check s p =
     s\<lparr>last_stable_state := False, last_change_time := get_time_ms (timer_us_debounce p),
       button_was_pressed := False\<rparr>"
  using assms by (simp add: factory_reset_check_def is_button_pressed_def Let_def)

lemma factory_reset_checks_append:
  "factory_reset_checks s (ps @ qs) = factory_reset_checks (factory_reset_checks s ps) qs"
  by (induction ps arbitrary: s) simp_all

lemmas button_eval = factory_reset_check_def is_button_pressed_def button_state_init_def
  get_time_ms_def BUTTON_PRESSED_def DEBOUNCE_TIME_MS_def LONG_PRESS_DURATION_MS_def Let_def

text \<open>C6, against the claim: the button is read pressed at 100 ms, released at 110 ms and
  pressed again at 5.2 s. The release comes within \<open>DEBOUNCE_TIME_MS\<close> of the accepted press
  and is dropped by the filter, so the third call sees a press that has lasted 5.1 s and
  performs the reset, although the press was released long before the threshold.\<close>

theorem dropped_release_still_fires:
  "actions (factory_reset_checks button_state_init dropped_release_polls) =
     [WIFI_CREDENTIALS_CLEAR, ESP_RESTART]"
  by (simp add: dropped_release_polls_def button_eval)

lemma factory_reset_check_step:
  assumes n: "\<not> reset_triggered s"
  shows "(if fst (is_button_pressed s (gpio_level p) (timer_us_debounce p)) \<and> button_was_pressed s \<and>
            LONG_PRESS_DURATION_MS \<le> get_time_ms (timer_us_check p) - button_press_start_ms s
          then actions (factory_reset_check s p) = actions s @ [WIFI_CREDENTIALS_CLEAR, ESP_RESTART] \<and>
               reset_triggered (factory_reset_check s p)
          else actions (factory_reset_check s p) = actions s \<and>
               \<not> reset_triggered (factory_reset_check s p)) \<and>
     button_was_pressed (factory_reset_check s p) =
       fst (is_button_pressed s (gpio_level p) (timer_us_debounce p)) \<and>
     button_press_start_ms (factory_reset_check s p) =
       (if fst (is_button_pressed s (gpio_level p) (timer_us_debounce p)) \<and> \<not> button_was_pressed s
        then get_time_ms (timer_us_check p) else button_press_start_ms s) \<and>
     last_stable_state (factory_reset_check s p) =
       fst (is_button_pressed s (gpio_level p) (timer_us_debounce p)) \<and>
     last_change_time (factory_reset_check s p) =
       last_change_time (snd (is_button_pressed s (gpio_level p) (timer_us_debounce p)))"
proof -
  obtain b s1 where e: "is_button_pressed s (gpio_level p) (timer_us_debounce p) = (b, s1)"
    by (cases "is_button_pressed s (gpio_level p) (timer_us_debounce p)")
  have k: "actions s1 = actions s" "reset_triggered s1 = reset_triggered s"
    "button_was_pressed s1 = button_was_pressed s"
    "button_press_start_ms s1 = button_press_start_ms s"
    using is_button_pressed_keeps[OF e] by simp_all
  have b: "last_stable_state s1 = b"
    using e by (auto simp: is_button_pressed_def Let_def split: if_splits)
  show ?thesis
    using n k b by (auto simp: factory_reset_check_def e Let_def)
qed

lemma press_from_idle:
  assumes "button_idle s" "gpio_level p = BUTTON_PRESSED"
    "DEBOUNCE_TIME_MS \<le> get_time_ms (timer_us_debounce p) - last_change_time s"
  shows "factory_reset_check s p =
     s\<lparr>last_stable_state := True,
       last_change_time := get_time_ms (timer_us_debounce p),
       button_press_start_ms := get_time_ms (timer_us_check p),
       button_was_pressed := True\<rparr>"
  using assms
  by (simp add: button_idle_def factory_reset_check_def is_button_pressed_def Let_def)

lemma held_from_idle:
  assumes idle: "button_idle s"
    and pressed: "\<forall>q \<in> set (press # held). gpio_level q = BUTTON_PRESSED"
    and acc: "DEBOUNCE_TIME_MS \<le> get_time_ms (timer_us_debounce press) - last_change_time s"
  shows "reset_triggered (factory_reset_checks s (press # held)) =
       (\<exists>q \<in> set held. LONG_PRESS_DURATION_MS \<le>
          get_time_ms (timer_us_check q) - get_time_ms (timer_us_check press))"
    and "\<not> reset_triggered (factory_reset_checks s (press # held)) \<Longrightarrow>
       factory_reset_checks s (press # held) =
         s\<lparr>last_stable_state := True,
           last_change_time := get_time_ms (timer_us_debounce press),
           button_press_start_ms := get_time_ms (timer_us_check press),
           button_was_pressed := True\<rparr>"
proof -
  let ?s = "factory_reset_check s press"
  have s: "?s = s\<lparr>last_stable_state := True,
       last_change_time := get_time_ms (timer_us_debounce press),
       button_press_start_ms := get_time_ms (timer_us_check press),
       button_was_pressed := True\<rparr>"
    using idle pressed acc by (simp add: press_from_idle)
  have p: "\<not> reset_triggered ?s" "button_was_pressed ?s" "last_stable_state ?s"
    "button_press_start_ms ?s = get_time_ms (timer_us_check press)"
    unfolding s using idle by (simp_all add: button_idle_def)
  have hp: "\<forall>q \<in> set held. gpio_level q = BUTTON_PRESSED" using pressed by simp
  show "reset_triggered (factory_reset_checks s (press # held)) =
       (\<exists>q \<in> set held. LONG_PRESS_DURATION_MS \<le>
          get_time_ms (timer_us_check q) - get_time_ms (timer_us_check press))"
    using held_checks(1)[OF p(1,2,3) hp] p(4) by simp
  show "factory_reset_checks s (press # held) =
         s\<lparr>last_stable_state := True,
           last_change_time := get_time_ms (timer_us_debounce press),
           button_press_start_ms := get_time_ms (timer_us_check press),
           button_was_pressed := True\<rparr>"
    if "\<not> reset_triggered (factory_reset_checks s (press # held))"
    using held_checks(2)[OF p(1,2,3) hp] that s by simp
qed

lemma release_to_idle:
  assumes idle: "button_idle s"
    and pressed: "\<forall>q \<in> set (press # held). gpio_level q = BUTTON_PRESSED"
    and acc: "DEBOUNCE_TIME_MS \<le> get_time_ms (timer_us_debounce press) - last_change_time s"
    and below: "\<forall>q \<in> set held.
        get_time_ms (timer_us_check q) - get_time_ms (timer_us_check press) < LONG_PRESS_DURATION_MS"
    and rel: "gpio_level r \<noteq> BUTTON_PRESSED"
    and racc: "DEBOUNCE_TIME_MS \<le>
        get_time_ms (timer_us_debounce r) - get_time_ms (timer_us_debounce press)"
  shows "factory_reset_checks s (press # held @ [r]) =
     s\<lparr>last_stable_state := False,
       last_change_time := get_time_ms (timer_us_debounce r),
       button_press_start_ms := get_time_ms (timer_us_check press),
       button_was_pressed := False\<rparr>"
proof -
  let ?h = "s\<lparr>last_stable_state := True,
           last_change_time := get_time_ms (timer_us_debounce press),
           button_press_start_ms := get_time_ms (timer_us_check press),
           button_was_pressed := True\<rparr>"
  have "\<not> reset_triggered (factory_reset_checks s (press # held))"
    using held_from_idle(1)[OF idle pressed acc] below by (auto simp: not_le)
  then have h: "factory_reset_checks s (press # held) = ?h"
    using held_from_idle(2)[OF idle pressed acc] by simp
  have p: "\<not> reset_triggered ?h" "button_was_pressed ?h" "last_stable_state ?h"
    using idle by (simp_all add: button_idle_def)
  have "factory_reset_check ?h r =
     ?h\<lparr>last_stable_state := False, last_change_time := get_time_ms (timer_us_debounce r),
       button_was_pressed := False\<rparr>"
    using release_check[OF p, of r] rel racc by simp
  moreover have "factory_reset_checks s (press # held @ [r]) = factory_reset_check ?h r"
    using h factory_reset_checks_append[of s "press # held" "[r]"] by simp
  ultimately show ?thesis by simp
qed

lemma second_press_after_release:
  assumes idle: "button_idle s"
    and pressed: "\<forall>q \<in> set (press # held). gpio_level q = BUTTON_PRESSED"
    and acc: "DEBOUNCE_TIME_MS \<le> get_time_ms (timer_us_debounce press) - last_change_time s"
    and below: "\<forall>q \<in> set held.
        get_time_ms (timer_us_check q) - get_time_ms (timer_us_check press) < LONG_PRESS_DURATION_MS"
    and rel: "gpio_level r \<noteq> BUTTON_PRESSED"
    and racc: "DEBOUNCE_TIME_MS \<le>
        get_time_ms (timer_us_debounce r) - get_time_ms (timer_us_debounce press)"
    and pressed_again: "\<forall>q \<in> set (again # later). gpio_level q = BUTTON_PRESSED"
    and acc_again: "DEBOUNCE_TIME_MS \<le>
        get_time_ms (timer_us_debounce again) - get_time_ms (timer_us_debounce r)"
  shows "reset_triggered (factory_reset_checks s (press # held @ r # again # later)) =
       (\<exists>q \<in> set later. LONG_PRESS_DURATION_MS \<le>
          get_time_ms (timer_us_check q) - get_time_ms (timer_us_check again))"
proof -
  let ?i = "s\<lparr>last_stable_state := False,
       last_change_time := get_time_ms (timer_us_debounce r),
       button_press_start_ms := get_time_ms (timer_us_check press),
       button_was_pressed := False\<rparr>"
  have i: "factory_reset_checks s (press # held @ [r]) = ?i"
    using idle pressed acc below rel racc by (rule release_to_idle)
  have "press # held @ r # again # later = (press # held @ [r]) @ (again # later)" by simp
  then have "factory_reset_checks s (press # held @ r # again # later) =
      factory_reset_checks ?i (again # later)"
    using i by (simp only: factory_reset_checks_append)
  moreover have "button_idle ?i" using idle by (simp add: button_idle_def)
  moreover have "DEBOUNCE_TIME_MS \<le> get_time_ms (timer_us_debounce again) - last_change_time ?i"
    using acc_again by simp
  ultimately show ?thesis
    using held_from_idle(1)[of ?i again later] pressed_again by simp
qed

lemma actions_once:
  "\<not> reset_triggered s \<Longrightarrow>
   actions (factory_reset_checks s ps) =
     actions s @ (if reset_triggered (factory_reset_checks s ps)
                  then [WIFI_CREDENTIALS_CLEAR, ESP_RESTART] else [])"
proof (induction ps arbitrary: s)
  case Nil
  then show ?case by simp
next
  case (Cons p ps)
  show ?case
  proof (cases "reset_triggered (factory_reset_check s p)")
    case True
    then have "actions (factory_reset_check s p) = actions s @ [WIFI_CREDENTIALS_CLEAR, ESP_RESTART]"
      using factory_reset_check_step[OF Cons.prems, of p] by (auto split: if_splits)
    with True show ?thesis by (simp add: factory_reset_checks_latched)
  next
    case False
    then have "actions (factory_reset_check s p) = actions s"
      using factory_reset_check_step[OF Cons.prems, of p] by (auto split: if_splits)
    with Cons.IH[OF False] show ?thesis by simp
  qed
qed

lemma dropped_release_check:
  assumes "last_stable_state s" "gpio_level r \<noteq> BUTTON_PRESSED"
    "get_time_ms (timer_us_debounce r) - last_change_time s < DEBOUNCE_TIME_MS"
  shows "factory_reset_check s r = factory_reset_check s (r\<lparr>gpio_level := BUTTON_PRESSED\<rparr>)"
  using assms by (simp add: factory_reset_check_def is_button_pressed_def Let_def not_le[symmetric])

lemma dropped_release_keeps_counting:
  assumes idle: "button_idle s"
    and pressed: "\<forall>q \<in> set (press # held). gpio_level q = BUTTON_PRESSED"
    and acc: "DEBOUNCE_TIME_MS \<le> get_time_ms (timer_us_debounce press) - last_change_time s"
    and rel: "gpio_level r \<noteq> BUTTON_PRESSED"
    and early: "get_time_ms (timer_us_debounce r) - get_time_ms (timer_us_debounce press)
        < DEBOUNCE_TIME_MS"
    and pressed_later: "\<forall>q \<in> set later. gpio_level q = BUTTON_PRESSED"
  shows "reset_triggered (factory_reset_checks s (press # held @ r # later)) =
       (\<exists>q \<in> set (held @ r # later). LONG_PRESS_DURATION_MS \<le>
          get_time_ms (timer_us_check q) - get_time_ms (timer_us_check press))"
proof -
  let ?r = "r\<lparr>gpio_level := BUTTON_PRESSED\<rparr>"
  let ?h = "factory_reset_checks s (press # held)"
  have step: "factory_reset_check ?h r = factory_reset_check ?h ?r"
  proof (cases "reset_triggered ?h")
    case True
    then show ?thesis by (simp only: factory_reset_check_latched)
  next
    case False
    then have h: "?h = s\<lparr>last_stable_state := True,
           last_change_time := get_time_ms (timer_us_debounce press),
           button_press_start_ms := get_time_ms (timer_us_check press),
           button_was_pressed := True\<rparr>"
      using held_from_idle(2)[OF idle pressed acc] by simp
    have l: "last_stable_state ?h"
      and c: "last_change_time ?h = get_time_ms (timer_us_debounce press)"
      unfolding h by simp_all
    from early c have "get_time_ms (timer_us_debounce r) - last_change_time ?h < DEBOUNCE_TIME_MS"
      by simp
    with l rel show ?thesis by (rule dropped_release_check)
  qed
  have "press # held @ r # later = (press # held) @ r # later" by simp
  then have "factory_reset_checks s (press # held @ r # later) =
      factory_reset_checks (factory_reset_check ?h r) later"
    by (simp only: factory_reset_checks_append factory_reset_checks.simps)
  also have "\<dots> = factory_reset_checks (factory_reset_check ?h ?r) later"
    by (simp only: step)
  also have "\<dots> = factory_reset_checks s (press # (held @ ?r # later))"
    by (simp add: factory_reset_checks_append)
  finally have e: "factory_reset_checks s (press # held @ r # later) =
      factory_reset_checks s (press # (held @ ?r # later))" .
  have p: "\<forall>q \<in> set (press # (held @ ?r # later)). gpio_level q = BUTTON_PRESSED"
    using pressed pressed_later by auto
  show ?thesis
    unfolding e using held_from_idle(1)[OF idle p acc] by simp
qed

text \<open>C6, as the code has it. After any calls of \<open>factory_reset_check\<close>, from boot or from any
  state in which the latch is not set, the reset actions (clearing the credentials,
  restarting) have been added exactly once if the latch is set and not at all otherwise,
  and a call with the latch set changes nothing. A call with the latch not set performs
  the actions and sets the latch exactly when the debounced level is pressed, the
  previous call saw it pressed and at least \<open>LONG_PRESS_DURATION_MS\<close> have passed since
  \<open>button_press_start_ms\<close>; after it \<open>button_was_pressed\<close> is the debounced level, and
  \<open>button_press_start_ms\<close> is the time of this call if the debounced level has just become
  pressed and unchanged otherwise. From rest, a press that the filter accepts and that is
  read as pressed at every later call has triggered the reset exactly if one of those
  calls came at least \<open>LONG_PRESS_DURATION_MS\<close> after the accepting one; if none did and a
  release is then read at least \<open>DEBOUNCE_TIME_MS\<close> after the press was accepted, the button
  is at rest again and no action has been performed; and a second press accepted after that
  release is timed from its own accepting call. A release read less than
  \<open>DEBOUNCE_TIME_MS\<close> after the press was accepted is dropped instead and the press keeps
  counting: if the button is read as pressed at every call after it, the reset has been
  triggered exactly if one of the calls after the accepting one, that of the dropped
  release included, came at least \<open>LONG_PRESS_DURATION_MS\<close> after the accepting one.\<close>

theorem factory_reset_fires_at_most_once:
  "actions (factory_reset_checks button_state_init ps) =
     (if reset_triggered (factory_reset_checks button_state_init ps)
      then [WIFI_CREDENTIALS_CLEAR, ESP_RESTART] else []) \<and>
   (\<not> reset_triggered s \<longrightarrow>
      actions (factory_reset_checks s ps) =
        actions s @ (if reset_triggered (factory_reset_checks s ps)
                     then [WIFI_CREDENTIALS_CLEAR, ESP_RESTART] else [])) \<and>
   (reset_triggered s \<longrightarrow> factory_reset_check s p = s) \<and>
   (\<not> reset_triggered s \<longrightarrow>
      (if fst (is_button_pressed s (gpio_level p) (timer_us_debounce p)) \<and> button_was_pressed s \<and>
          LONG_PRESS_DURATION_MS \<le> get_time_ms (timer_us_check p) - button_press_start_ms s
       then actions (factory_reset_check s p) = actions s @ [WIFI_CREDENTIALS_CLEAR, ESP_RESTART] \<and>
            reset_triggered (factory_reset_check s p)
       else actions (factory_reset_check s p) = actions s \<and>
            \<not> reset_triggered (factory_reset_check s p)) \<and>
      button_was_pressed (factory_reset_check s p) =
        fst (is_button_pressed s (gpio_level p) (timer_us_debounce p)) \<and>
      button_press_start_ms (factory_reset_check s p) =
        (if fst (is_button_pressed s (gpio_level p) (timer_us_debounce p)) \<and>
            \<not> button_was_pressed s
         then get_time_ms (timer_us_check p) else button_press_start_ms s) \<and>
      last_stable_state (factory_reset_check s p) =
        fst (is_button_pressed s (gpio_level p) (timer_us_debounce p)) \<and>
      last_change_time (factory_reset_check s p) =
        last_change_time (snd (is_button_pressed s (gpio_level p) (timer_us_debounce p)))) \<and>
   (button_idle s \<and> (\<forall>q \<in> set (press # held). gpio_level q = BUTTON_PRESSED) \<and>
    DEBOUNCE_TIME_MS \<le> get_time_ms (timer_us_debounce press) - last_change_time s \<longrightarrow>
      reset_triggered (factory_reset_checks s (press # held)) =
        (\<exists>q \<in> set held. LONG_PRESS_DURATION_MS \<le>
           get_time_ms (timer_us_check q) - get_time_ms (timer_us_check press)) \<and>
      (gpio_level dropped \<noteq> BUTTON_PRESSED \<and>
       get_time_ms (timer_us_debounce dropped) - get_time_ms (timer_us_debounce press)
         < DEBOUNCE_TIME_MS \<and>
       (\<forall>q \<in> set following. gpio_level q = BUTTON_PRESSED) \<longrightarrow>
         reset_triggered (factory_reset_checks s (press # held @ dropped # following)) =
           (\<exists>q \<in> set (held @ dropped # following). LONG_PRESS_DURATION_MS \<le>
              get_time_ms (timer_us_check q) - get_time_ms (timer_us_check press))) \<and>
      ((\<forall>q \<in> set held.
          get_time_ms (timer_us_check q) - get_time_ms (timer_us_check press)
            < LONG_PRESS_DURATION_MS) \<and>
       gpio_level r \<noteq> BUTTON_PRESSED \<and>
       DEBOUNCE_TIME_MS \<le>
         get_time_ms (timer_us_debounce r) - get_time_ms (timer_us_debounce press) \<longrightarrow>
         button_idle (factory_reset_checks s (press # held @ [r])) \<and>
         actions (factory_reset_checks s (press # held @ [r])) = actions s \<and>
         last_change_time (factory_reset_checks s (press # held @ [r])) =
           get_time_ms (timer_us_debounce r) \<and>
         ((\<forall>q \<in> set (again # later). gpio_level q = BUTTON_PRESSED) \<and>
          DEBOUNCE_TIME_MS \<le>
            get_time_ms (timer_us_debounce again) - get_time_ms (timer_us_debounce r) \<longrightarrow>
            reset_triggered (factory_reset_checks s (press # held @ r # again # later)) =
              (\<exists>q \<in> set later. LONG_PRESS_DURATION_MS \<le>
                 get_time_ms (timer_us_check q) - get_time_ms (timer_us_check again)))))"
proof (intro conjI impI)
  show "actions (factory_reset_checks button_state_init ps) =
     (if reset_triggered (factory_reset_checks button_state_init ps)
      then [WIFI_CREDENTIALS_CLEAR, ESP_RESTART] else [])"
    using factory_reset_checks_inv[OF button_state_init_inv, of ps]
    by (simp only: actions_inv_def)
next
  assume "\<not> reset_triggered s"
  then show "actions (factory_reset_checks s ps) =
        actions s @ (if reset_triggered (factory_reset_checks s ps)
                     then [WIFI_CREDENTIALS_CLEAR, ESP_RESTART] else [])"
    by (rule actions_once)
next
  assume "reset_triggered s"
  then show "factory_reset_check s p = s" by (rule factory_reset_check_latched)
next
  assume n: "\<not> reset_triggered s"
  note st = factory_reset_check_step[OF n, of p]
  from st show "if fst (is_button_pressed s (gpio_level p) (timer_us_debounce p)) \<and>
          button_was_pressed s \<and>
          LONG_PRESS_DURATION_MS \<le> get_time_ms (timer_us_check p) - button_press_start_ms s
       then actions (factory_reset_check s p) = actions s @ [WIFI_CREDENTIALS_CLEAR, ESP_RESTART] \<and>
            reset_triggered (factory_reset_check s p)
       else actions (factory_reset_check s p) = actions s \<and>
            \<not> reset_triggered (factory_reset_check s p)" by (rule conjunct1)
  from st show "button_was_pressed (factory_reset_check s p) =
        fst (is_button_pressed s (gpio_level p) (timer_us_debounce p))" by blast
  from st show "button_press_start_ms (factory_reset_check s p) =
        (if fst (is_button_pressed s (gpio_level p) (timer_us_debounce p)) \<and>
            \<not> button_was_pressed s
         then get_time_ms (timer_us_check p) else button_press_start_ms s)" by blast
  from st show "last_stable_state (factory_reset_check s p) =
        fst (is_button_pressed s (gpio_level p) (timer_us_debounce p))" by blast
  from st show "last_change_time (factory_reset_check s p) =
        last_change_time (snd (is_button_pressed s (gpio_level p) (timer_us_debounce p)))"
    by blast
next
  assume a: "button_idle s \<and> (\<forall>q \<in> set (press # held). gpio_level q = BUTTON_PRESSED) \<and>
    DEBOUNCE_TIME_MS \<le> get_time_ms (timer_us_debounce press) - last_change_time s"
  then show "reset_triggered (factory_reset_checks s (press # held)) =
        (\<exists>q \<in> set held. LONG_PRESS_DURATION_MS \<le>
           get_time_ms (timer_us_check q) - get_time_ms (timer_us_check press))"
    using held_from_idle(1)[of s press held] by blast
  show "reset_triggered (factory_reset_checks s (press # held @ dropped # following)) =
           (\<exists>q \<in> set (held @ dropped # following). LONG_PRESS_DURATION_MS \<le>
              get_time_ms (timer_us_check q) - get_time_ms (timer_us_check press))"
    if "gpio_level dropped \<noteq> BUTTON_PRESSED \<and>
       get_time_ms (timer_us_debounce dropped) - get_time_ms (timer_us_debounce press)
         < DEBOUNCE_TIME_MS \<and>
       (\<forall>q \<in> set following. gpio_level q = BUTTON_PRESSED)"
    using a that dropped_release_keeps_counting[of s press held dropped following] by blast
  assume b: "(\<forall>q \<in> set held.
          get_time_ms (timer_us_check q) - get_time_ms (timer_us_check press)
            < LONG_PRESS_DURATION_MS) \<and>
       gpio_level r \<noteq> BUTTON_PRESSED \<and>
       DEBOUNCE_TIME_MS \<le>
         get_time_ms (timer_us_debounce r) - get_time_ms (timer_us_debounce press)"
  have i: "factory_reset_checks s (press # held @ [r]) =
     s\<lparr>last_stable_state := False,
       last_change_time := get_time_ms (timer_us_debounce r),
       button_press_start_ms := get_time_ms (timer_us_check press),
       button_was_pressed := False\<rparr>"
    using a b release_to_idle[of s press held r] by blast
  show "button_idle (factory_reset_checks s (press # held @ [r]))"
    unfolding i using a by (simp add: button_idle_def)
  show "actions (factory_reset_checks s (press # held @ [r])) = actions s"
    unfolding i by simp
  show "last_change_time (factory_reset_checks s (press # held @ [r])) =
           get_time_ms (timer_us_debounce r)"
    unfolding i by simp
  assume c: "(\<forall>q \<in> set (again # later). gpio_level q = BUTTON_PRESSED) \<and>
          DEBOUNCE_TIME_MS \<le>
            get_time_ms (timer_us_debounce again) - get_time_ms (timer_us_debounce r)"
  show "reset_triggered (factory_reset_checks s (press # held @ r # again # later)) =
              (\<exists>q \<in> set later. LONG_PRESS_DURATION_MS \<le>
                 get_time_ms (timer_us_check q) - get_time_ms (timer_us_check again))"
    using a b c second_press_after_release[of s press held r again later] by blast
qed

lemmas example_polls = first_press_poll_def held_polls_def briefly_held_polls_def
  release_poll_def second_press_poll_def held_to_6s_def held_to_9s_def

theorem factory_reset_fires_at_most_once_witness:
  "reset_triggered (factory_reset_checks button_state_init (first_press_poll # held_polls)) \<and>
   actions (factory_reset_checks button_state_init (first_press_poll # held_polls)) =
     [WIFI_CREDENTIALS_CLEAR, ESP_RESTART] \<and>
   factory_reset_check (factory_reset_checks button_state_init (first_press_poll # held_polls))
     release_poll = factory_reset_checks button_state_init (first_press_poll # held_polls) \<and>
   button_idle (factory_reset_checks button_state_init
     (first_press_poll # briefly_held_polls @ [release_poll])) \<and>
   \<not> reset_triggered (factory_reset_checks button_state_init
     (first_press_poll # briefly_held_polls @ release_poll # second_press_poll # held_to_6s)) \<and>
   actions (factory_reset_checks button_state_init
     (first_press_poll # briefly_held_polls @ release_poll # second_press_poll # held_to_6s)) = [] \<and>
   reset_triggered (factory_reset_checks button_state_init
     (first_press_poll # briefly_held_polls @ release_poll # second_press_poll # held_to_9s)) \<and>
   reset_triggered (factory_reset_checks button_state_init
     (first_press_poll # early_release_poll # late_press_polls))"
proof -
  note long_inst = factory_reset_fires_at_most_once[where ps = "first_press_poll # held_polls"
      and s = button_state_init and press = first_press_poll and held = held_polls]
  note latch_inst = factory_reset_fires_at_most_once[where
      s = "factory_reset_checks button_state_init (first_press_poll # held_polls)"
      and p = release_poll]
  note taps_6s = factory_reset_fires_at_most_once[where s = button_state_init
      and ps = "first_press_poll # briefly_held_polls @ release_poll # second_press_poll # held_to_6s"
      and press = first_press_poll and held = briefly_held_polls and r = release_poll
      and again = second_press_poll and later = held_to_6s]
  note taps_9s = factory_reset_fires_at_most_once[where s = button_state_init
      and press = first_press_poll and held = briefly_held_polls and r = release_poll
      and again = second_press_poll and later = held_to_9s]
  have idle: "button_idle button_state_init"
    by (simp add: button_idle_def button_state_init_def)
  have pressed: "\<forall>q \<in> set (first_press_poll # held_polls). gpio_level q = BUTTON_PRESSED"
    "\<forall>q \<in> set (first_press_poll # briefly_held_polls). gpio_level q = BUTTON_PRESSED"
    "\<forall>q \<in> set (second_press_poll # held_to_6s). gpio_level q = BUTTON_PRESSED"
    "\<forall>q \<in> set (second_press_poll # held_to_9s). gpio_level q = BUTTON_PRESSED"
    by (simp_all add: example_polls BUTTON_PRESSED_def)
  have accepted: "DEBOUNCE_TIME_MS \<le>
      get_time_ms (timer_us_debounce first_press_poll) - last_change_time button_state_init"
    by (simp add: example_polls DEBOUNCE_TIME_MS_def get_time_ms_def button_state_init_def)
  have long: "\<exists>q \<in> set held_polls. LONG_PRESS_DURATION_MS \<le>
      get_time_ms (timer_us_check q) - get_time_ms (timer_us_check first_press_poll)"
    by (simp add: example_polls LONG_PRESS_DURATION_MS_def get_time_ms_def)
  have short: "\<forall>q \<in> set briefly_held_polls.
      get_time_ms (timer_us_check q) - get_time_ms (timer_us_check first_press_poll)
        < LONG_PRESS_DURATION_MS"
    by (simp add: example_polls LONG_PRESS_DURATION_MS_def get_time_ms_def)
  have released: "gpio_level release_poll \<noteq> BUTTON_PRESSED"
    by (simp add: example_polls BUTTON_PRESSED_def)
  have release_accepted: "DEBOUNCE_TIME_MS \<le>
      get_time_ms (timer_us_debounce release_poll) - get_time_ms (timer_us_debounce first_press_poll)"
    by (simp add: example_polls DEBOUNCE_TIME_MS_def get_time_ms_def)
  have second_accepted: "DEBOUNCE_TIME_MS \<le>
      get_time_ms (timer_us_debounce second_press_poll) - get_time_ms (timer_us_debounce release_poll)"
    by (simp add: example_polls DEBOUNCE_TIME_MS_def get_time_ms_def)
  have not_6s: "\<not> (\<exists>q \<in> set held_to_6s. LONG_PRESS_DURATION_MS \<le>
      get_time_ms (timer_us_check q) - get_time_ms (timer_us_check second_press_poll))"
    by (simp add: example_polls LONG_PRESS_DURATION_MS_def get_time_ms_def)
  have at_9s: "\<exists>q \<in> set held_to_9s. LONG_PRESS_DURATION_MS \<le>
      get_time_ms (timer_us_check q) - get_time_ms (timer_us_check second_press_poll)"
    by (simp add: example_polls LONG_PRESS_DURATION_MS_def get_time_ms_def)
  from long_inst idle pressed(1) accepted long
  have t: "reset_triggered (factory_reset_checks button_state_init (first_press_poll # held_polls))"
    by blast
  with long_inst
  have a: "actions (factory_reset_checks button_state_init (first_press_poll # held_polls)) =
     [WIFI_CREDENTIALS_CLEAR, ESP_RESTART]" by presburger
  from latch_inst t
  have l: "factory_reset_check
      (factory_reset_checks button_state_init (first_press_poll # held_polls)) release_poll =
     factory_reset_checks button_state_init (first_press_poll # held_polls)" by blast
  from taps_6s idle pressed(2) accepted short released release_accepted
  have i: "button_idle (factory_reset_checks button_state_init
     (first_press_poll # briefly_held_polls @ [release_poll]))" by blast
  from taps_6s idle pressed(2,3) accepted short released release_accepted second_accepted not_6s
  have n: "\<not> reset_triggered (factory_reset_checks button_state_init
     (first_press_poll # briefly_held_polls @ release_poll # second_press_poll # held_to_6s))"
    by blast
  with taps_6s
  have e: "actions (factory_reset_checks button_state_init
     (first_press_poll # briefly_held_polls @ release_poll # second_press_poll # held_to_6s)) = []"
    by presburger
  from taps_9s idle pressed(2,4) accepted short released release_accepted second_accepted at_9s
  have f: "reset_triggered (factory_reset_checks button_state_init
     (first_press_poll # briefly_held_polls @ release_poll # second_press_poll # held_to_9s))"
    by blast
  note drop_inst = factory_reset_fires_at_most_once[where s = button_state_init
      and press = first_press_poll and held = "[]" and dropped = early_release_poll
      and following = late_press_polls]
  have early: "gpio_level early_release_poll \<noteq> BUTTON_PRESSED"
    "get_time_ms (timer_us_debounce early_release_poll) -
       get_time_ms (timer_us_debounce first_press_poll) < DEBOUNCE_TIME_MS"
    "\<forall>q \<in> set late_press_polls. gpio_level q = BUTTON_PRESSED"
    "\<forall>q \<in> set [first_press_poll]. gpio_level q = BUTTON_PRESSED"
    "\<exists>q \<in> set ([] @ early_release_poll # late_press_polls). LONG_PRESS_DURATION_MS \<le>
       get_time_ms (timer_us_check q) - get_time_ms (timer_us_check first_press_poll)"
    by (simp_all add: example_polls early_release_poll_def late_press_polls_def
        BUTTON_PRESSED_def DEBOUNCE_TIME_MS_def LONG_PRESS_DURATION_MS_def get_time_ms_def)
  from drop_inst idle accepted early
  have "reset_triggered (factory_reset_checks button_state_init
     (first_press_poll # [] @ early_release_poll # late_press_polls))" by blast
  then have d: "reset_triggered (factory_reset_checks button_state_init
     (first_press_poll # early_release_poll # late_press_polls))" by (simp only: append_Nil)
  from t a l i n e f d show ?thesis by blast
qed

subsection \<open>The stored identity\<close>

lemmas nvs_keys = NVS_KEY_SSID_def NVS_KEY_PASSWORD_def NVS_KEY_PROVISIONED_def
  NVS_KEY_DEVICE_ID_def

lemma empty_fields_parsed:
  "parse_form_fields (c_string ''ssid=&password=&device_id=x'') 33 65 33 =
     Some ('''', '''', ''x'')"
  by (simp add: parse_form_fields_def copy_form_field_def url_decode_def c_string_def)

lemma empty_fields_store:
  "save_post_handler Map.empty empty_fields_req save_ok device_id_ok =
     (ESP_OK, [NVS_KEY_SSID \<mapsto> Str '''', NVS_KEY_PASSWORD \<mapsto> Str '''',
               NVS_KEY_PROVISIONED \<mapsto> U8 1, NVS_KEY_DEVICE_ID \<mapsto> Str ''x''])"
  by (simp add: save_post_handler_def empty_fields_req_def empty_fields_parsed
      wifi_credentials_save_def wifi_credentials_save_device_id_def nvs_set_def
      save_ok_def device_id_ok_def)

text \<open>C9, against the claim: from an empty store, which satisfies the invariant, the
  request body \<open>ssid=&password=&device_id=x\<close> is parsed, saved with \<open>ESP_OK\<close> and leaves the
  device provisioned with an empty SSID, so the invariant is broken.\<close>

theorem empty_credentials_saved_as_provisioned:
  "identity_inv Map.empty \<and>
   fst (save_post_handler Map.empty empty_fields_req save_ok device_id_ok) = ESP_OK \<and>
   wifi_credentials_is_provisioned
     (snd (save_post_handler Map.empty empty_fields_req save_ok device_id_ok)) ESP_OK \<and>
   snd (save_post_handler Map.empty empty_fields_req save_ok device_id_ok) NVS_KEY_SSID =
     Some (Str '''') \<and>
   \<not> identity_inv (snd (save_post_handler Map.empty empty_fields_req save_ok device_id_ok))"
  by (simp add: empty_fields_store identity_inv_def wifi_credentials_is_provisioned_def nvs_keys)

lemma save_present:
  "identity_present st \<Longrightarrow> identity_present (snd (wifi_credentials_save st ssid password rcs))"
  by (auto simp: identity_present_def wifi_credentials_save_def nvs_set_def Let_def nvs_keys)

lemma save_inv:
  "identity_inv st \<Longrightarrow> ssid \<noteq> [] \<Longrightarrow> password \<noteq> [] \<Longrightarrow>
   identity_inv (snd (wifi_credentials_save st ssid password rcs))"
  by (auto simp: identity_inv_def wifi_credentials_save_def nvs_set_def Let_def nvs_keys)

lemma save_device_id_present:
  "identity_present st \<Longrightarrow>
   identity_present (snd (wifi_credentials_save_device_id st device_id rcs))"
  by (auto simp: identity_present_def wifi_credentials_save_device_id_def nvs_set_def Let_def
      nvs_keys)

lemma clear_present:
  "identity_present st \<Longrightarrow> identity_present (snd (wifi_credentials_clear st rcs))"
  by (auto simp: identity_present_def wifi_credentials_clear_def)

lemma save_post_handler_store:
  "snd (save_post_handler st req rcs id_rcs) = st \<or>
   (\<exists>ssid password. snd (save_post_handler st req rcs id_rcs) =
      snd (wifi_credentials_save st ssid password rcs)) \<or>
   (\<exists>ssid password device_id. snd (save_post_handler st req rcs id_rcs) =
      snd (wifi_credentials_save_device_id (snd (wifi_credentials_save st ssid password rcs))
        device_id id_rcs))"
proof (cases "content_len req \<le> 0")
  case True
  then show ?thesis by (simp add: save_post_handler_def)
next
  case pos: False
  show ?thesis
  proof (cases "received req")
    case None
    with pos show ?thesis by (simp add: save_post_handler_def)
  next
    case (Some bytes)
    show ?thesis
    proof (cases "parse_form_fields (c_string (take (nat (content_len req)) bytes)) 33 65 33")
      case None
      with pos Some show ?thesis by (simp add: save_post_handler_def)
    next
      case parsed: (Some f)
      obtain ssid password device_id where f: "f = (ssid, password, device_id)"
        by (cases f) auto
      obtain err st1 where s1: "wifi_credentials_save st ssid password rcs = (err, st1)"
        by (cases "wifi_credentials_save st ssid password rcs") auto
      obtain err2 st2 where s2: "wifi_credentials_save_device_id st1 device_id id_rcs = (err2, st2)"
        by (cases "wifi_credentials_save_device_id st1 device_id id_rcs") auto
      have "snd (save_post_handler st req rcs id_rcs) = (if err \<noteq> ESP_OK then st1 else st2)"
        using pos Some parsed f s1 s2 by (simp add: save_post_handler_def)
      moreover have "st1 = snd (wifi_credentials_save st ssid password rcs)" using s1 by simp
      moreover have "st2 = snd (wifi_credentials_save_device_id
          (snd (wifi_credentials_save st ssid password rcs)) device_id id_rcs)"
        using s1 s2 by simp
      ultimately show ?thesis by metis
    qed
  qed
qed

lemma save_post_handler_present:
  assumes "identity_present st"
  shows "identity_present (snd (save_post_handler st req rcs id_rcs))"
  using save_post_handler_store[of st req rcs id_rcs] assms
  by (auto simp: save_present save_device_id_present)

lemma save_sets_flag_last:
  "snd (wifi_credentials_save st ssid password rcs) NVS_KEY_PROVISIONED \<noteq> st NVS_KEY_PROVISIONED \<Longrightarrow>
   snd (wifi_credentials_save st ssid password rcs) NVS_KEY_SSID = Some (Str ssid) \<and>
   snd (wifi_credentials_save st ssid password rcs) NVS_KEY_PASSWORD = Some (Str password) \<and>
   snd (wifi_credentials_save st ssid password rcs) NVS_KEY_PROVISIONED = Some (U8 1)"
  by (auto simp: wifi_credentials_save_def nvs_set_def Let_def nvs_keys split: if_splits)

text \<open>C9, as the code has it: the empty store satisfies, and saving credentials, saving
  the device id, clearing and the \<open>/save\<close> handler all preserve, whatever the NVS calls
  return, that a provisioned flag of 1 comes with a stored SSID and password; and
  \<open>wifi_credentials_save\<close> keeps them non-empty when it is given a non-empty SSID and
  password.\<close>

theorem stored_identity_present:
  "identity_present Map.empty \<and>
   (identity_present st \<longrightarrow>
      identity_present (snd (wifi_credentials_save st ssid password rcs)) \<and>
      identity_present (snd (wifi_credentials_save_device_id st device_id id_rcs)) \<and>
      identity_present (snd (wifi_credentials_clear st c_rcs)) \<and>
      identity_present (snd (save_post_handler st req rcs id_rcs))) \<and>
   (identity_inv st \<and> ssid \<noteq> [] \<and> password \<noteq> [] \<longrightarrow>
      identity_inv (snd (wifi_credentials_save st ssid password rcs)))"
  using save_present save_device_id_present clear_present save_post_handler_present save_inv
  by (simp add: identity_present_def)


theorem stored_identity_present_witness:
  "identity_present (snd (wifi_credentials_save Map.empty ''home'' ''secret'' save_ok)) \<and>
   identity_inv (snd (wifi_credentials_save Map.empty ''home'' ''secret'' save_ok)) \<and>
   identity_present (snd (save_post_handler Map.empty empty_fields_req save_ok device_id_ok)) \<and>
   snd (wifi_credentials_save Map.empty ''home'' ''secret'' save_ok) NVS_KEY_PROVISIONED =
     Some (U8 1)"
proof -
  have i: "identity_inv Map.empty" by (simp add: identity_inv_def)
  have n: "''home'' \<noteq> []" "''secret'' \<noteq> []" by simp_all
  have f: "snd (wifi_credentials_save Map.empty ''home'' ''secret'' save_ok) NVS_KEY_PROVISIONED =
     Some (U8 1)"
    by (simp add: wifi_credentials_save_def nvs_set_def save_ok_def)
  from stored_identity_present[where st = Map.empty and ssid = "''home''"
      and password = "''secret''" and rcs = save_ok and req = empty_fields_req
      and id_rcs = device_id_ok] i n f
  show ?thesis by blast
qed

subsection \<open>System initialisation\<close>

lemma init_system_returns_ok_iff:
  "(fst (init_system sys env) = Returned ESP_OK) = core_init_ok sys env"
  by (auto simp: core_init_ok_def nvs_init_ok_def init_system_def Let_def factory_reset_init_def
      split: prod.splits if_splits)

lemma init_system_sensors:
  assumes "core_init_ok sys env"
  shows "battery (snd (init_system sys env)) = fst (snd (battery_init_call sys env)) \<and>
    soil (snd (init_system sys env)) = fst (snd (soil_init_call sys env))"
  using assms
  by (auto simp: core_init_ok_def nvs_init_ok_def init_system_def Let_def battery_init_call_def
      soil_init_call_def split: prod.splits if_splits)

lemma battery_init_failed:
  "\<not> bat_initialized b \<Longrightarrow> fst (battery_monitor_init b a cfg drv) \<noteq> ESP_OK \<Longrightarrow>
   \<not> bat_initialized (fst (snd (battery_monitor_init b a cfg drv)))"
  by (auto simp: battery_monitor_init_def Let_def split: prod.splits if_splits)

lemma soil_init_failed:
  "\<not> soil_initialized s \<Longrightarrow> fst (soil_moisture_init s a cfg drv) \<noteq> ESP_OK \<Longrightarrow>
   \<not> soil_initialized (fst (snd (soil_moisture_init s a cfg drv)))"
  by (auto simp: soil_moisture_init_def Let_def split: prod.splits if_splits)

lemma app_main_after_init:
  "app_main sys env =
     (case fst (init_system sys (init env)) of
        Aborted \<Rightarrow> [INIT_SYSTEM, ABORT]
      | Restarted \<Rightarrow> [INIT_SYSTEM, RESTART]
      | Returned rc \<Rightarrow>
          if rc \<noteq> ESP_OK then [INIT_SYSTEM, DEEP_SLEEP DEEP_SLEEP_INTERVAL_SEC]
          else
            (case setup_wifi_result env of
               Aborted \<Rightarrow> [INIT_SYSTEM, SETUP_WIFI, ABORT]
             | Restarted \<Rightarrow> [INIT_SYSTEM, SETUP_WIFI, RESTART]
             | Returned rc_wifi \<Rightarrow>
                 if rc_wifi \<noteq> ESP_OK
                 then [INIT_SYSTEM, SETUP_WIFI, DEEP_SLEEP DEEP_SLEEP_INTERVAL_SEC]
                 else if setup_mqtt_rc env \<noteq> ESP_OK
                 then [INIT_SYSTEM, SETUP_WIFI, SETUP_MQTT, DEEP_SLEEP DEEP_SLEEP_INTERVAL_SEC]
                 else [INIT_SYSTEM, SETUP_WIFI, SETUP_MQTT,
                       PUBLISH_TELEMETRY (publish_telemetry_once (snd (init_system sys (init env))) env),
                       DEEP_SLEEP DEEP_SLEEP_INTERVAL_SEC]))"
  by (simp add: app_main_def split: prod.splits outcome.splits)

lemma init_system_aborts_iff:
  "(fst (init_system sys env) = Aborted) = nvs_erase_aborts env"
  by (auto simp: nvs_erase_aborts_def init_system_def Let_def split: prod.splits if_splits)

lemma core_init_ok_first_failure:
  "core_init_ok sys env =
     (\<not> nvs_erase_aborts env \<and> first_failure (core_init_rcs sys env) = ESP_OK)"
  by (auto simp: core_init_ok_def nvs_init_ok_def nvs_erase_aborts_def core_init_rcs_def
      nvs_init_rc_def split: if_splits)

lemma init_system_first_failure:
  "\<not> nvs_erase_aborts env \<Longrightarrow>
   fst (init_system sys env) = Returned (first_failure (core_init_rcs sys env))"
  by (auto simp: nvs_erase_aborts_def init_system_def Let_def core_init_rcs_def nvs_init_rc_def
      split: prod.splits if_splits)

lemma battery_init_sets_flag:
  "\<not> bat_initialized b \<Longrightarrow>
   bat_initialized (fst (snd (battery_monitor_init b a cfg drv))) =
     (fst (battery_monitor_init b a cfg drv) = ESP_OK)"
  by (auto simp: battery_monitor_init_def Let_def split: prod.splits if_splits)

lemma soil_init_sets_flag:
  "\<not> soil_initialized s \<Longrightarrow>
   soil_initialized (fst (snd (soil_moisture_init s a cfg drv))) =
     (fst (soil_moisture_init s a cfg drv) = ESP_OK)"
  by (auto simp: soil_moisture_init_def Let_def split: prod.splits if_splits)

text \<open>C10, against the claim: a failure of the NVS initialisation does not always end in
  sleep. When \<open>nvs_flash_init\<close> reports a truncated partition and \<open>nvs_flash_erase\<close> then
  fails, \<open>ESP_ERROR_CHECK\<close> aborts inside \<open>init_system\<close>: it does not return, and \<open>app_main\<close>
  never reaches \<open>esp_deep_sleep\<close>.\<close>

theorem nvs_erase_failure_aborts_without_sleep:
  "nvs_flash_init_rc (init nvs_erase_fails_boot) = ESP_ERR_NVS_NO_FREE_PAGES \<and>
   nvs_flash_erase_rc (init nvs_erase_fails_boot) = ESP_FAIL \<and>
   fst (init_system system_state_init (init nvs_erase_fails_boot)) = Aborted \<and>
   app_main system_state_init nvs_erase_fails_boot = [INIT_SYSTEM, ABORT] \<and>
   DEEP_SLEEP DEEP_SLEEP_INTERVAL_SEC \<notin> set (app_main system_state_init nvs_erase_fails_boot)"
  by (simp add: app_main_after_init init_system_def nvs_erase_fails_boot_def
      sensors_fail_boot_def sensors_fail_init_def)

text \<open>C10, as the code has it. \<open>init_system\<close> aborts exactly when \<open>nvs_flash_erase\<close> fails
  after a truncated partition, and \<open>app_main\<close> then ends in the abort, without sleep.
  Otherwise it returns, with the code of the first of the five initialisations that
  failed (NVS after the retry, the TCP/IP stack, the event loop, the ADC manager, the reset
  button) and with \<open>ESP_OK\<close> only if none did: it returns \<open>ESP_OK\<close> exactly when all five
  succeed, whatever \<open>battery_monitor_init\<close> and \<open>soil_moisture_init\<close> return. When it
  returns an error, \<open>app_main\<close> goes to sleep without any further step. When the five
  succeed, \<open>app_main\<close> goes on to the WiFi setup and, when that and the MQTT setup succeed,
  to \<open>publish_telemetry_once\<close> and then to sleep; both sensor initialisations have been run,
  a sensor that was not initialised before is initialised afterwards exactly if its
  initialisation returned \<open>ESP_OK\<close>, and one whose initialisation returned an error reads
  as 0 afterwards, for every ADC state and every sample, also in the values
  \<open>publish_telemetry_once\<close> hands to the publisher if it gets that far.\<close>

theorem sensor_init_failure_does_not_fail_boot:
  "(fst (init_system sys (init env)) = Aborted) = nvs_erase_aborts (init env) \<and>
   (fst (init_system sys (init env)) = Returned ESP_OK) = core_init_ok sys (init env) \<and>
   (\<not> nvs_erase_aborts (init env) \<longrightarrow>
      fst (init_system sys (init env)) =
        Returned (first_failure (core_init_rcs sys (init env)))) \<and>
   (nvs_erase_aborts (init env) \<longrightarrow> app_main sys env = [INIT_SYSTEM, ABORT]) \<and>
   (\<not> nvs_erase_aborts (init env) \<and> \<not> core_init_ok sys (init env) \<longrightarrow>
      app_main sys env = [INIT_SYSTEM, DEEP_SLEEP DEEP_SLEEP_INTERVAL_SEC]) \<and>
   (core_init_ok sys (init env) \<longrightarrow>
      take 2 (app_main sys env) = [INIT_SYSTEM, SETUP_WIFI] \<and>
      (setup_wifi_result env = Returned ESP_OK \<and> setup_mqtt_rc env = ESP_OK \<longrightarrow>
         app_main sys env =
           [INIT_SYSTEM, SETUP_WIFI, SETUP_MQTT,
            PUBLISH_TELEMETRY (publish_telemetry_once (snd (init_system sys (init env))) env),
            DEEP_SLEEP DEEP_SLEEP_INTERVAL_SEC]) \<and>
      battery (snd (init_system sys (init env))) = fst (snd (battery_init_call sys (init env))) \<and>
      soil (snd (init_system sys (init env))) = fst (snd (soil_init_call sys (init env))) \<and>
      (\<not> bat_initialized (battery sys) \<longrightarrow>
         bat_initialized (battery (snd (init_system sys (init env)))) =
           (fst (battery_init_call sys (init env)) = ESP_OK)) \<and>
      (\<not> soil_initialized (soil sys) \<longrightarrow>
         soil_initialized (soil (snd (init_system sys (init env)))) =
           (fst (soil_init_call sys (init env)) = ESP_OK)) \<and>
      (\<not> bat_initialized (battery sys) \<and> fst (battery_init_call sys (init env)) \<noteq> ESP_OK \<longrightarrow>
         battery_monitor_read_voltage (battery (snd (init_system sys (init env)))) a reads
           raw_to_voltage = 0) \<and>
      (\<not> soil_initialized (soil sys) \<and> fst (soil_init_call sys (init env)) \<noteq> ESP_OK \<longrightarrow>
         soil_moisture_read_percentage (soil (snd (init_system sys (init env)))) a reads
           raw_to_voltage = 0) \<and>
      (\<not> bat_initialized (battery sys) \<and> fst (battery_init_call sys (init env)) \<noteq> ESP_OK \<and>
       snd (publish_telemetry_once (snd (init_system sys (init env))) env) = Some (v, m) \<longrightarrow>
         v = 0) \<and>
      (\<not> soil_initialized (soil sys) \<and> fst (soil_init_call sys (init env)) \<noteq> ESP_OK \<and>
       snd (publish_telemetry_once (snd (init_system sys (init env))) env) = Some (v, m) \<longrightarrow>
         m = 0))"
proof (intro conjI impI)
  show "(fst (init_system sys (init env)) = Aborted) = nvs_erase_aborts (init env)"
    by (rule init_system_aborts_iff)
  show "(fst (init_system sys (init env)) = Returned ESP_OK) = core_init_ok sys (init env)"
    by (rule init_system_returns_ok_iff)
next
  assume "\<not> nvs_erase_aborts (init env)"
  then show "fst (init_system sys (init env)) =
        Returned (first_failure (core_init_rcs sys (init env)))"
    by (rule init_system_first_failure)
next
  assume "nvs_erase_aborts (init env)"
  then have "fst (init_system sys (init env)) = Aborted" by (simp add: init_system_aborts_iff)
  then show "app_main sys env = [INIT_SYSTEM, ABORT]" by (simp add: app_main_after_init)
next
  assume a: "\<not> nvs_erase_aborts (init env) \<and> \<not> core_init_ok sys (init env)"
  then have "fst (init_system sys (init env)) =
        Returned (first_failure (core_init_rcs sys (init env)))"
    by (simp add: init_system_first_failure)
  moreover from a have "first_failure (core_init_rcs sys (init env)) \<noteq> ESP_OK"
    by (auto simp: core_init_ok_first_failure)
  ultimately show "app_main sys env = [INIT_SYSTEM, DEEP_SLEEP DEEP_SLEEP_INTERVAL_SEC]"
    by (simp add: app_main_after_init)
next
  assume c: "core_init_ok sys (init env)"
  then have ok: "fst (init_system sys (init env)) = Returned ESP_OK"
    by (simp add: init_system_returns_ok_iff)
  note sens = init_system_sensors[OF c]
  show "take 2 (app_main sys env) = [INIT_SYSTEM, SETUP_WIFI]"
    using ok by (simp add: app_main_after_init split: outcome.splits)
  show "battery (snd (init_system sys (init env))) = fst (snd (battery_init_call sys (init env)))"
    using sens by simp
  show "soil (snd (init_system sys (init env))) = fst (snd (soil_init_call sys (init env)))"
    using sens by simp
  show "bat_initialized (battery (snd (init_system sys (init env)))) =
           (fst (battery_init_call sys (init env)) = ESP_OK)"
    if "\<not> bat_initialized (battery sys)"
    using that sens by (simp add: battery_init_call_def battery_init_sets_flag)
  show "soil_initialized (soil (snd (init_system sys (init env)))) =
           (fst (soil_init_call sys (init env)) = ESP_OK)"
    if "\<not> soil_initialized (soil sys)"
    using that sens by (simp add: soil_init_call_def soil_init_sets_flag)
  show "app_main sys env =
           [INIT_SYSTEM, SETUP_WIFI, SETUP_MQTT,
            PUBLISH_TELEMETRY (publish_telemetry_once (snd (init_system sys (init env))) env),
            DEEP_SLEEP DEEP_SLEEP_INTERVAL_SEC]"
    if "setup_wifi_result env = Returned ESP_OK \<and> setup_mqtt_rc env = ESP_OK"
    using ok that by (simp add: app_main_after_init)
  show "battery_monitor_read_voltage (battery (snd (init_system sys (init env)))) a reads
           raw_to_voltage = 0"
    if "\<not> bat_initialized (battery sys) \<and> fst (battery_init_call sys (init env)) \<noteq> ESP_OK"
  proof -
    have "\<not> bat_initialized (fst (snd (battery_init_call sys (init env))))"
      using that unfolding battery_init_call_def by (simp add: battery_init_failed)
    then show ?thesis using sens by (simp add: battery_monitor_read_voltage_def)
  qed
  show "soil_moisture_read_percentage (soil (snd (init_system sys (init env)))) a reads
           raw_to_voltage = 0"
    if "\<not> soil_initialized (soil sys) \<and> fst (soil_init_call sys (init env)) \<noteq> ESP_OK"
  proof -
    have "\<not> soil_initialized (fst (snd (soil_init_call sys (init env))))"
      using that unfolding soil_init_call_def by (simp add: soil_init_failed)
    then show ?thesis using sens by (simp add: soil_moisture_read_percentage_def)
  qed
  show "v = 0"
    if "\<not> bat_initialized (battery sys) \<and> fst (battery_init_call sys (init env)) \<noteq> ESP_OK \<and>
       snd (publish_telemetry_once (snd (init_system sys (init env))) env) = Some (v, m)"
  proof -
    have "\<not> bat_initialized (fst (snd (battery_init_call sys (init env))))"
      using that unfolding battery_init_call_def by (simp add: battery_init_failed)
    then have "\<not> bat_initialized (battery (snd (init_system sys (init env))))"
      using sens by simp
    then show ?thesis
      using that
      by (auto simp: publish_telemetry_once_def Let_def battery_monitor_read_voltage_def
          split: if_splits)
  qed
  show "m = 0"
    if "\<not> soil_initialized (soil sys) \<and> fst (soil_init_call sys (init env)) \<noteq> ESP_OK \<and>
       snd (publish_telemetry_once (snd (init_system sys (init env))) env) = Some (v, m)"
  proof -
    have "\<not> soil_initialized (fst (snd (soil_init_call sys (init env))))"
      using that unfolding soil_init_call_def by (simp add: soil_init_failed)
    then have "\<not> soil_initialized (soil (snd (init_system sys (init env))))"
      using sens by simp
    then show ?thesis
      using that
      by (auto simp: publish_telemetry_once_def Let_def soil_moisture_read_percentage_def
          split: if_splits)
  qed
qed

lemma sensors_fail_core_ok: "core_init_ok system_state_init (init sensors_fail_boot)"
  by (simp add: core_init_ok_def nvs_init_ok_def sensors_fail_boot_def sensors_fail_init_def
      system_state_init_def adc_manager_state_init_def adc_manager_init_def
      factory_reset_init_def)

lemma sensors_fail_calls:
  "fst (battery_init_call system_state_init (init sensors_fail_boot)) = ESP_ERR_INVALID_ARG"
  "fst (soil_init_call system_state_init (init sensors_fail_boot)) = ESP_ERR_NO_MEM"
  by (simp_all add: battery_init_call_def soil_init_call_def sensors_fail_boot_def
      sensors_fail_init_def system_state_init_def adc_manager_state_init_def adc_manager_init_def
      battery_monitor_init_def soil_moisture_init_def battery_state_init_def soil_state_init_def
      adc_manager_get_handle_def adc_manager_create_cali_def cali_handles_init_def
      MAX_CALI_HANDLES_def cali_entry_zero_def numeral_eq_Suc)

lemma event_loop_fails_not_ok:
  "\<not> nvs_erase_aborts (init event_loop_fails_boot)"
  "\<not> core_init_ok system_state_init (init event_loop_fails_boot)"
  "first_failure (core_init_rcs system_state_init (init event_loop_fails_boot)) = ESP_FAIL"
  by (simp_all add: nvs_erase_aborts_def core_init_ok_def core_init_rcs_def nvs_init_rc_def
      nvs_init_ok_def event_loop_fails_boot_def sensors_fail_boot_def sensors_fail_init_def)

lemma nvs_erase_fails_aborts: "nvs_erase_aborts (init nvs_erase_fails_boot)"
  by (simp add: nvs_erase_aborts_def nvs_erase_fails_boot_def sensors_fail_boot_def
      sensors_fail_init_def)

theorem sensor_init_failure_does_not_fail_boot_witness:
  "fst (init_system system_state_init (init sensors_fail_boot)) = Returned ESP_OK \<and>
   app_main system_state_init sensors_fail_boot =
     [INIT_SYSTEM, SETUP_WIFI, SETUP_MQTT, PUBLISH_TELEMETRY (ESP_FAIL, None),
      DEEP_SLEEP 3600] \<and>
   \<not> bat_initialized (battery (snd (init_system system_state_init (init sensors_fail_boot)))) \<and>
   \<not> soil_initialized (soil (snd (init_system system_state_init (init sensors_fail_boot)))) \<and>
   battery_monitor_read_voltage
     (battery (snd (init_system system_state_init (init sensors_fail_boot))))
     (adc (snd (init_system system_state_init (init sensors_fail_boot)))) example_reads
     example_raw_to_voltage = 0 \<and>
   soil_moisture_read_percentage
     (soil (snd (init_system system_state_init (init sensors_fail_boot))))
     (adc (snd (init_system system_state_init (init sensors_fail_boot)))) example_reads
     example_raw_to_voltage = 0 \<and>
   fst (init_system system_state_init (init event_loop_fails_boot)) = Returned ESP_FAIL \<and>
   app_main system_state_init event_loop_fails_boot = [INIT_SYSTEM, DEEP_SLEEP 3600] \<and>
   app_main system_state_init nvs_erase_fails_boot = [INIT_SYSTEM, ABORT]"
proof -
  note t = sensor_init_failure_does_not_fail_boot[where sys = system_state_init
      and env = sensors_fail_boot
      and a = "adc (snd (init_system system_state_init (init sensors_fail_boot)))"
      and reads = example_reads and raw_to_voltage = example_raw_to_voltage]
  have u: "\<not> bat_initialized (battery system_state_init)"
    "\<not> soil_initialized (soil system_state_init)"
    by (simp_all add: system_state_init_def battery_state_init_def soil_state_init_def)
  have w: "setup_wifi_result sensors_fail_boot = Returned ESP_OK"
    "setup_mqtt_rc sensors_fail_boot = ESP_OK"
    by (simp_all add: sensors_fail_boot_def)
  have f: "fst (battery_init_call system_state_init (init sensors_fail_boot)) \<noteq> ESP_OK"
    "fst (soil_init_call system_state_init (init sensors_fail_boot)) \<noteq> ESP_OK"
    by (simp_all add: sensors_fail_calls)
  from t sensors_fail_core_ok
  have i: "fst (init_system system_state_init (init sensors_fail_boot)) = Returned ESP_OK"
    by blast
  from t sensors_fail_core_ok u f
  have n: "\<not> bat_initialized (battery (snd (init_system system_state_init (init sensors_fail_boot))))"
    "\<not> soil_initialized (soil (snd (init_system system_state_init (init sensors_fail_boot))))"
    by blast+
  from t sensors_fail_core_ok u f
  have z: "battery_monitor_read_voltage
      (battery (snd (init_system system_state_init (init sensors_fail_boot))))
      (adc (snd (init_system system_state_init (init sensors_fail_boot)))) example_reads
      example_raw_to_voltage = 0"
    "soil_moisture_read_percentage
      (soil (snd (init_system system_state_init (init sensors_fail_boot))))
      (adc (snd (init_system system_state_init (init sensors_fail_boot)))) example_reads
      example_raw_to_voltage = 0"
    by blast+
  have p: "publish_telemetry_once (snd (init_system system_state_init (init sensors_fail_boot)))
      sensors_fail_boot = (ESP_FAIL, None)"
    by (simp add: publish_telemetry_once_def sensors_fail_boot_def Let_def)
  from t sensors_fail_core_ok w
  have "app_main system_state_init sensors_fail_boot =
     [INIT_SYSTEM, SETUP_WIFI, SETUP_MQTT,
      PUBLISH_TELEMETRY (publish_telemetry_once
        (snd (init_system system_state_init (init sensors_fail_boot))) sensors_fail_boot),
      DEEP_SLEEP DEEP_SLEEP_INTERVAL_SEC]" by blast
  then have m: "app_main system_state_init sensors_fail_boot =
     [INIT_SYSTEM, SETUP_WIFI, SETUP_MQTT, PUBLISH_TELEMETRY (ESP_FAIL, None), DEEP_SLEEP 3600]"
    by (simp add: p DEEP_SLEEP_INTERVAL_SEC_def)
  note e = sensor_init_failure_does_not_fail_boot[where sys = system_state_init
      and env = event_loop_fails_boot]
  from e event_loop_fails_not_ok
  have r: "fst (init_system system_state_init (init event_loop_fails_boot)) = Returned ESP_FAIL"
    by simp
  from e event_loop_fails_not_ok
  have "app_main system_state_init event_loop_fails_boot =
      [INIT_SYSTEM, DEEP_SLEEP DEEP_SLEEP_INTERVAL_SEC]" by blast
  then have s: "app_main system_state_init event_loop_fails_boot = [INIT_SYSTEM, DEEP_SLEEP 3600]"
    by (simp add: DEEP_SLEEP_INTERVAL_SEC_def)
  from sensor_init_failure_does_not_fail_boot[where sys = system_state_init
      and env = nvs_erase_fails_boot] nvs_erase_fails_aborts
  have b: "app_main system_state_init nvs_erase_fails_boot = [INIT_SYSTEM, ABORT]" by blast
  from i m n z r s b show ?thesis by blast
qed

end
